theory Spec2Isabelle
  imports Main "HOL-Library.Word"
begin

unbundle bit_operations_syntax

section \<open>Data model\<close>

text \<open>
  Buffers are \<open>std::vector<unsigned char>\<close>: lists of 8-bit words.  A value of type
  \<open>size_t\<close> is a natural number below \<open>2 ^ 64\<close>; \<open>size_t n\<close> is the value an
  arithmetic result \<open>n\<close> has once it is stored in 64 bits.  Sums and products wrap
  around at each step in the source; as \<open>mod\<close> commutes with both, the model reduces a
  sum of products once, at the end.
\<close>

definition size_t :: "nat \<Rightarrow> nat" where
  "size_t n = n mod 2 ^ 64"

type_synonym byte = "8 word"
type_synonym buffer = "byte list"

text \<open>
  \<open>NotEnoughData\<close> is the exception thrown with the text "Not enough data!".  The other
  three mark behaviour that C++ leaves undefined, where the model stops: \<open>OutOfBounds\<close>
  an access outside a vector (through \<open>operator[]\<close>, an iterator or a raw pointer),
  \<open>DivisionByZero\<close> a division or remainder by zero, \<open>ShiftTooFar\<close> a shift of a 64-bit
  value by 64 bits or more.
\<close>

datatype failure = NotEnoughData | OutOfBounds | DivisionByZero | ShiftTooFar

definition GOB_WIDTH_IN_BYTES :: nat where
  "GOB_WIDTH_IN_BYTES = 64"

definition GOB_HEIGHT_IN_BYTES :: nat where
  "GOB_HEIGHT_IN_BYTES = 8"

definition GOB_SIZE_IN_BYTES :: nat where
  "GOB_SIZE_IN_BYTES = GOB_WIDTH_IN_BYTES * GOB_HEIGHT_IN_BYTES"

text \<open>
  \<open>enum class BlockHeight\<close> is an integer with named values; the code converts in both
  directions (\<open>static_cast<size_t>(block_height)\<close>, \<open>BlockHeight(block_height)\<close>), so a
  block height is the wrapped underlying value.
\<close>

datatype BlockHeight = BlockHeight (static_cast: nat)

definition BlockHeight_One :: BlockHeight where
  "BlockHeight_One = BlockHeight 1"

definition BlockHeight_Two :: BlockHeight where
  "BlockHeight_Two = BlockHeight 2"

definition BlockHeight_Four :: BlockHeight where
  "BlockHeight_Four = BlockHeight 4"

definition BlockHeight_Eight :: BlockHeight where
  "BlockHeight_Eight = BlockHeight 8"

definition BlockHeight_Sixteen :: BlockHeight where
  "BlockHeight_Sixteen = BlockHeight 16"

definition BlockHeight_ThirtyTwo :: BlockHeight where
  "BlockHeight_ThirtyTwo = BlockHeight 32"

definition BlockHeight_Invalid :: BlockHeight where
  "BlockHeight_Invalid = BlockHeight 0xFFFF"

definition block_height_from_value :: "nat \<Rightarrow> BlockHeight" where
  "block_height_from_value v =
     (if v = 1 then BlockHeight_One
      else if v = 2 then BlockHeight_Two
      else if v = 4 then BlockHeight_Four
      else if v = 8 then BlockHeight_Eight
      else if v = 16 then BlockHeight_Sixteen
      else if v = 32 then BlockHeight_ThirtyTwo
      else BlockHeight_Invalid)"

text \<open>The block heights the Tegra accepts (TRM page 1189, table 79).\<close>

definition valid_block_height :: "BlockHeight \<Rightarrow> bool" where
  "valid_block_height bh \<longleftrightarrow>
     bh = BlockHeight_One \<or> bh = BlockHeight_Two \<or> bh = BlockHeight_Four \<or>
     bh = BlockHeight_Eight \<or> bh = BlockHeight_Sixteen \<or> bh = BlockHeight_ThirtyTwo"

record BlockDim =
  dim_width :: nat
  dim_height :: nat
  dim_depth :: nat

definition block_dim_uncompressed :: BlockDim where
  "block_dim_uncompressed = \<lparr>dim_width = 1, dim_height = 1, dim_depth = 1\<rparr>"

definition block_dim_4x4 :: BlockDim where
  "block_dim_4x4 = \<lparr>dim_width = 4, dim_height = 4, dim_depth = 1\<rparr>"


section \<open>Computations that can fail\<close>

text \<open>
  A computation that can fail returns \<open>Inl\<close> of the failure or \<open>Inr\<close> of its value.  One
  that can also run forever returns an option of that: \<open>None\<close> when it does not return.
  \<open>bind\<close> and \<open>bind_opt\<close> sequence two computations of the same kind; \<open>lift\<close> runs a
  computation that always ends before one that may not.
\<close>

definition bind :: "failure + 'a \<Rightarrow> ('a \<Rightarrow> failure + 'b) \<Rightarrow> failure + 'b" where
  "bind m f = (case m of Inl e \<Rightarrow> Inl e | Inr a \<Rightarrow> f a)"

definition lift :: "failure + 'a \<Rightarrow> ('a \<Rightarrow> (failure + 'b) option) \<Rightarrow> (failure + 'b) option"
  where
  "lift m f = (case m of Inl e \<Rightarrow> Some (Inl e) | Inr a \<Rightarrow> f a)"

definition bind_opt ::
  "(failure + 'a) option \<Rightarrow> ('a \<Rightarrow> (failure + 'b) option) \<Rightarrow> (failure + 'b) option" where
  "bind_opt m f =
     (case m of None \<Rightarrow> None | Some (Inl e) \<Rightarrow> Some (Inl e) | Some (Inr a) \<Rightarrow> f a)"

text \<open>
  A \<open>for\<close> loop over the values of a list whose body can fail: the body runs for each
  value in turn and the first failure ends the loop.  \<open>for_each_opt\<close> is the same loop
  for a body that may not return.
\<close>

primrec for_each :: "'i list \<Rightarrow> ('i \<Rightarrow> 's \<Rightarrow> failure + 's) \<Rightarrow> 's \<Rightarrow> failure + 's" where
  "for_each [] body s = Inr s"
| "for_each (i # rest) body s =
     (case body i s of Inl e \<Rightarrow> Inl e | Inr s' \<Rightarrow> for_each rest body s')"

primrec for_each_opt ::
  "'i list \<Rightarrow> ('i \<Rightarrow> 's \<Rightarrow> (failure + 's) option) \<Rightarrow> 's \<Rightarrow> (failure + 's) option" where
  "for_each_opt [] body s = Some (Inr s)"
| "for_each_opt (i # rest) body s = bind_opt (body i s) (for_each_opt rest body)"

text \<open>
  \<open>for (size_t i = start; i < stop; i += step)\<close>.  The counter wraps around, so the loop
  may never end: with \<open>stop > 2 ^ 64 - step\<close> the counter returns to 0 after
  \<open>2 ^ 64 - step\<close>.
\<close>

partial_function (option) for_step ::
  "nat \<Rightarrow> nat \<Rightarrow> nat \<Rightarrow> (nat \<Rightarrow> 's \<Rightarrow> (failure + 's) option) \<Rightarrow> 's \<Rightarrow> (failure + 's) option"
  where
  "for_step i stop step body s =
     (if i < stop then
        (case body i s of
           None \<Rightarrow> None
         | Some (Inl e) \<Rightarrow> Some (Inl e)
         | Some (Inr s') \<Rightarrow> for_step (size_t (i + step)) stop step body s')
      else Some (Inr s))"

section \<open>lib.h: rounding helpers\<close>

definition div_round_up :: "nat \<Rightarrow> nat \<Rightarrow> failure + nat" where
  "div_round_up x d =
     (if d = 0 then Inl DivisionByZero else Inr (size_t (x + d - 1) div d))"

definition round_up :: "nat \<Rightarrow> nat \<Rightarrow> failure + nat" where
  "round_up x n =
     (if n = 0 then Inl DivisionByZero else Inr (size_t (size_t (x + n - 1) div n * n)))"

definition width_in_gobs :: "nat \<Rightarrow> nat \<Rightarrow> failure + nat" where
  "width_in_gobs width bytes_per_pixel =
     div_round_up (size_t (width * bytes_per_pixel)) GOB_WIDTH_IN_BYTES"

definition height_in_blocks :: "nat \<Rightarrow> nat \<Rightarrow> failure + nat" where
  "height_in_blocks height block_height =
     div_round_up height (size_t (block_height * GOB_HEIGHT_IN_BYTES))"

section \<open>blockdepth.h and blockheight.h\<close>

definition block_depth :: "nat \<Rightarrow> nat" where
  "block_depth depth =
     (let depth_and_half = size_t (depth + depth div 2) in
      if depth_and_half \<ge> 16 then 16
      else if depth_and_half \<ge> 8 then 8
      else if depth_and_half \<ge> 4 then 4
      else if depth_and_half \<ge> 2 then 2
      else 1)"

function mip_block_depth :: "nat \<Rightarrow> nat \<Rightarrow> nat" where
  "mip_block_depth mip_depth gob_depth =
     (if mip_depth \<le> gob_depth div 2 \<and> gob_depth > 1
      then mip_block_depth mip_depth (gob_depth div 2)
      else gob_depth)"
  by pat_completeness auto
termination
  by (relation "measure snd") auto

declare mip_block_depth.simps [simp del]

definition block_height_mip0 :: "nat \<Rightarrow> BlockHeight" where
  "block_height_mip0 height =
     (let height_and_half = size_t (height + height div 2) in
      if height_and_half \<ge> 128 then BlockHeight_Sixteen
      else if height_and_half \<ge> 64 then BlockHeight_Eight
      else if height_and_half \<ge> 32 then BlockHeight_Four
      else if height_and_half \<ge> 16 then BlockHeight_Two
      else BlockHeight_One)"

text \<open>The \<open>while\<close> loop of \<open>mip_block_height\<close>, on the underlying value.\<close>

function mip_block_height_loop :: "nat \<Rightarrow> nat \<Rightarrow> nat" where
  "mip_block_height_loop mip_height block_height =
     (if mip_height \<le> (block_height div 2) * 8 \<and> block_height > 1
      then mip_block_height_loop mip_height (block_height div 2)
      else block_height)"
  by pat_completeness auto
termination
  by (relation "measure snd") auto

declare mip_block_height_loop.simps [simp del]

definition mip_block_height :: "nat \<Rightarrow> BlockHeight \<Rightarrow> BlockHeight" where
  "mip_block_height mip_height block_height_mip0' =
     BlockHeight (mip_block_height_loop mip_height (static_cast block_height_mip0'))"

section \<open>arrays.h: alignment between array layers\<close>

function align_gob_height :: "nat \<Rightarrow> nat \<Rightarrow> nat" where
  "align_gob_height height gob_height =
     (if height \<le> (gob_height div 2) * 8 \<and> gob_height > 1
      then align_gob_height height (gob_height div 2)
      else gob_height)"
  by pat_completeness auto
termination
  by (relation "measure snd") auto

declare align_gob_height.simps [simp del]

function align_gob_depth :: "nat \<Rightarrow> nat \<Rightarrow> nat" where
  "align_gob_depth depth gob_depth =
     (if depth \<le> gob_depth div 2 \<and> gob_depth > 1
      then align_gob_depth depth (gob_depth div 2)
      else gob_depth)"
  by pat_completeness auto
termination
  by (relation "measure snd") auto

declare align_gob_depth.simps [simp del]

text \<open>
  \<open>align_gob_height\<close> and \<open>align_gob_depth\<close> are the two \<open>while\<close> loops of
  \<open>align_layer_size\<close>; \<open>gob_blocks_in_tile_x\<close> is the constant 1 of the source.
\<close>

definition align_layer_size ::
  "nat \<Rightarrow> nat \<Rightarrow> nat \<Rightarrow> BlockHeight \<Rightarrow> nat \<Rightarrow> failure + nat" where
  "align_layer_size layer_size height depth block_height_mip0' depth_in_gobs =
     (let gob_blocks_in_tile_x = (1::nat) in
      if gob_blocks_in_tile_x < 2 then
        (let gob_height = align_gob_height height (static_cast block_height_mip0');
             gob_depth = align_gob_depth depth depth_in_gobs;
             block_of_gobs_size = size_t (gob_height * gob_depth * GOB_SIZE_IN_BYTES)
         in if block_of_gobs_size = 0 then Inl DivisionByZero
            else
              (let size_in_block_of_gobs = layer_size div block_of_gobs_size
               in if layer_size \<noteq> size_t (size_in_block_of_gobs * block_of_gobs_size)
                  then Inr (size_t ((size_in_block_of_gobs + 1) * block_of_gobs_size))
                  else Inr layer_size))
      else
        (let alignment = size_t ((gob_blocks_in_tile_x * GOB_SIZE_IN_BYTES)
                           * static_cast block_height_mip0' * depth_in_gobs)
         in round_up layer_size alignment))"

section \<open>swizzle.h: address arithmetic\<close>

definition slice_size :: "nat \<Rightarrow> nat \<Rightarrow> nat \<Rightarrow> nat \<Rightarrow> failure + nat" where
  "slice_size block_height block_depth' width_in_gobs' height =
     (let rob_size = size_t (GOB_SIZE_IN_BYTES * block_height * block_depth' * width_in_gobs')
      in bind (div_round_up height (size_t (block_height * GOB_HEIGHT_IN_BYTES)))
           (\<lambda>rows. Inr (size_t (rows * rob_size))))"

definition gob_address_z :: "nat \<Rightarrow> nat \<Rightarrow> nat \<Rightarrow> nat \<Rightarrow> failure + nat" where
  "gob_address_z z block_height block_depth' slice_size' =
     (if block_depth' = 0 then Inl DivisionByZero
      else Inr (size_t ((z div block_depth' * slice_size')
                  + ((z AND (block_depth' - 1)) * GOB_SIZE_IN_BYTES * block_height))))"

definition gob_address_y :: "nat \<Rightarrow> nat \<Rightarrow> nat \<Rightarrow> nat \<Rightarrow> failure + nat" where
  "gob_address_y y block_height_in_bytes block_size_in_bytes image_width_in_gobs =
     (if block_height_in_bytes = 0 then Inl DivisionByZero
      else
        (let block_y = y div block_height_in_bytes;
             block_inner_row = y mod block_height_in_bytes div GOB_HEIGHT_IN_BYTES
         in Inr (size_t (block_y * block_size_in_bytes * image_width_in_gobs
                   + block_inner_row * GOB_SIZE_IN_BYTES))))"

definition gob_address_x :: "nat \<Rightarrow> nat \<Rightarrow> nat" where
  "gob_address_x x block_size_in_bytes =
     (let block_x = x div GOB_WIDTH_IN_BYTES in size_t (block_x * block_size_in_bytes))"

definition gob_offset :: "nat \<Rightarrow> nat \<Rightarrow> nat" where
  "gob_offset x y =
     ((x mod 64) div 32) * 256 + ((y mod 8) div 2) * 64 + ((x mod 32) div 16) * 32
     + (y mod 2) * 16 + (x mod 16)"

definition GOB_ROW_OFFSETS :: "nat list" where
  "GOB_ROW_OFFSETS = [0, 16, 64, 80, 128, 144, 192, 208]"

section \<open>swizzle.h: sizes of one mip level\<close>

definition swizzled_mip_size ::
  "nat \<Rightarrow> nat \<Rightarrow> nat \<Rightarrow> BlockHeight \<Rightarrow> nat \<Rightarrow> failure + nat" where
  "swizzled_mip_size width height depth block_height bytes_per_pixel =
     bind (width_in_gobs width bytes_per_pixel) (\<lambda>width_in_gobs'.
     bind (height_in_blocks height (static_cast block_height)) (\<lambda>height_in_blocks'.
     let height_in_gobs = size_t (height_in_blocks' * static_cast block_height) in
     bind (round_up depth (block_depth depth)) (\<lambda>depth_in_gobs.
     let num_gobs = size_t (width_in_gobs' * height_in_gobs * depth_in_gobs)
     in Inr (size_t (num_gobs * GOB_SIZE_IN_BYTES)))))"

definition deswizzled_mip_size :: "nat \<Rightarrow> nat \<Rightarrow> nat \<Rightarrow> nat \<Rightarrow> nat" where
  "deswizzled_mip_size width height depth bytes_per_pixel =
     size_t (width * height * depth * bytes_per_pixel)"

section \<open>swizzle.h: copying bytes\<close>

text \<open>\<open>destination[d] = source[s]\<close>.\<close>

definition copy_byte :: "buffer \<Rightarrow> nat \<Rightarrow> buffer \<Rightarrow> nat \<Rightarrow> failure + buffer" where
  "copy_byte destination d source s =
     (if d < length destination \<and> s < length source
      then Inr (destination[d := source ! s])
      else Inl OutOfBounds)"

text \<open>
  \<open>std::copy(src + first, src + last, dst + d_first)\<close>.  A raw pointer into a vector is
  the vector and an index; pointer arithmetic does not wrap around, it is undefined
  outside the vector.
\<close>

definition std_copy :: "buffer \<Rightarrow> nat \<Rightarrow> nat \<Rightarrow> buffer \<Rightarrow> nat \<Rightarrow> failure + buffer" where
  "std_copy src first' last' dst d_first =
     for_each [0..<last' - first']
       (\<lambda>i dst'. copy_byte dst' (d_first + i) src (first' + i)) dst"

text \<open>
  In the next four functions \<open>dst\<close> and \<open>src\<close> are the vectors the pointers point into,
  and \<open>dst_ptr\<close> and \<open>src_ptr\<close> the indices they point at.
\<close>

definition deswizzle_gob_row ::
  "buffer \<Rightarrow> nat \<Rightarrow> nat \<Rightarrow> buffer \<Rightarrow> nat \<Rightarrow> nat \<Rightarrow> failure + buffer" where
  "deswizzle_gob_row dst dst_ptr dst_offset src src_ptr src_offset =
     bind (std_copy src (src_ptr + src_offset + 288) (src_ptr + src_offset + 304)
             dst (dst_ptr + dst_offset + 48)) (\<lambda>dst.
     bind (std_copy src (src_ptr + src_offset + 256) (src_ptr + src_offset + 272)
             dst (dst_ptr + dst_offset + 32)) (\<lambda>dst.
     bind (std_copy src (src_ptr + src_offset + 32) (src_ptr + src_offset + 48)
             dst (dst_ptr + dst_offset + 16)) (\<lambda>dst.
     std_copy src (src_ptr + src_offset) (src_ptr + src_offset + 16)
             dst (dst_ptr + dst_offset))))"

definition swizzle_gob_row ::
  "buffer \<Rightarrow> nat \<Rightarrow> nat \<Rightarrow> buffer \<Rightarrow> nat \<Rightarrow> nat \<Rightarrow> failure + buffer" where
  "swizzle_gob_row dst dst_ptr dst_offset src src_ptr src_offset =
     bind (std_copy src (src_ptr + src_offset + 48) (src_ptr + src_offset + 64)
             dst (dst_ptr + dst_offset + 288)) (\<lambda>dst.
     bind (std_copy src (src_ptr + src_offset + 32) (src_ptr + src_offset + 48)
             dst (dst_ptr + dst_offset + 256)) (\<lambda>dst.
     bind (std_copy src (src_ptr + src_offset + 16) (src_ptr + src_offset + 32)
             dst (dst_ptr + dst_offset + 32)) (\<lambda>dst.
     std_copy src (src_ptr + src_offset) (src_ptr + src_offset + 16)
             dst (dst_ptr + dst_offset))))"

definition deswizzle_complete_gob ::
  "buffer \<Rightarrow> nat \<Rightarrow> buffer \<Rightarrow> nat \<Rightarrow> nat \<Rightarrow> failure + buffer" where
  "deswizzle_complete_gob dst dst_ptr src src_ptr row_size_in_bytes =
     for_each [0..<length GOB_ROW_OFFSETS]
       (\<lambda>i dst'. deswizzle_gob_row dst' dst_ptr (size_t (row_size_in_bytes * i))
                    src src_ptr (GOB_ROW_OFFSETS ! i))
       dst"

definition swizzle_complete_gob ::
  "buffer \<Rightarrow> nat \<Rightarrow> buffer \<Rightarrow> nat \<Rightarrow> nat \<Rightarrow> failure + buffer" where
  "swizzle_complete_gob dst dst_ptr src src_ptr row_size_in_bytes =
     for_each [0..<length GOB_ROW_OFFSETS]
       (\<lambda>i dst'. swizzle_gob_row dst' dst_ptr (GOB_ROW_OFFSETS ! i)
                    src src_ptr (size_t (row_size_in_bytes * i)))
       dst"

definition swizzle_deswizzle_gob ::
  "bool \<Rightarrow> buffer \<Rightarrow> buffer \<Rightarrow> nat \<Rightarrow> nat \<Rightarrow> nat \<Rightarrow> nat \<Rightarrow> nat \<Rightarrow> nat \<Rightarrow> nat
     \<Rightarrow> failure + buffer" where
  "swizzle_deswizzle_gob DESWIZZLE destination source x0 y0 z0 width height bytes_per_pixel
       gob_address =
     for_each [0..<GOB_HEIGHT_IN_BYTES] (\<lambda>y.
       for_each [0..<GOB_WIDTH_IN_BYTES] (\<lambda>x destination'.
         if size_t (y0 + y) < height \<and> size_t (x0 + x) < size_t (width * bytes_per_pixel)
         then
           (let swizzled_offset = size_t (gob_address + gob_offset x y);
                linear_offset = size_t ((z0 * width * height * bytes_per_pixel)
                                  + ((y0 + y) * width * bytes_per_pixel) + x0 + x)
            in if DESWIZZLE
               then copy_byte destination' linear_offset source swizzled_offset
               else copy_byte destination' swizzled_offset source linear_offset)
         else Inr destination'))
       destination"

text \<open>
  One step of the innermost loop of \<open>swizzle_inner\<close>: the GOB at \<open>(x0, y0, z0)\<close>, by the
  block copy when it lies strictly inside the image and byte by byte otherwise.
\<close>

definition swizzle_inner_gob ::
  "bool \<Rightarrow> nat \<Rightarrow> nat \<Rightarrow> buffer \<Rightarrow> nat \<Rightarrow> nat \<Rightarrow> nat \<Rightarrow> nat \<Rightarrow> nat \<Rightarrow> buffer
     \<Rightarrow> failure + buffer" where
  "swizzle_inner_gob DESWIZZLE width height source bytes_per_pixel z0 y0 x0 gob_address
       destination =
     (if size_t (x0 + GOB_WIDTH_IN_BYTES) < size_t (width * bytes_per_pixel)
         \<and> size_t (y0 + GOB_HEIGHT_IN_BYTES) < height then
        (let linear_offset = size_t ((z0 * width * height * bytes_per_pixel)
                               + (y0 * width * bytes_per_pixel) + x0)
         in if DESWIZZLE
            then deswizzle_complete_gob destination linear_offset source gob_address
                   (size_t (width * bytes_per_pixel))
            else swizzle_complete_gob destination gob_address source linear_offset
                   (size_t (width * bytes_per_pixel)))
      else swizzle_deswizzle_gob DESWIZZLE destination source x0 y0 z0 width height
             bytes_per_pixel gob_address)"

definition swizzle_inner ::
  "bool \<Rightarrow> nat \<Rightarrow> nat \<Rightarrow> nat \<Rightarrow> buffer \<Rightarrow> buffer \<Rightarrow> BlockHeight \<Rightarrow> nat \<Rightarrow> nat
     \<Rightarrow> (failure + buffer) option" where
  "swizzle_inner DESWIZZLE width height depth source destination block_height block_depth'
       bytes_per_pixel =
     (let block_height' = static_cast block_height in
      lift (width_in_gobs width bytes_per_pixel) (\<lambda>width_in_gobs'.
      lift (slice_size block_height' block_depth' width_in_gobs' height) (\<lambda>slice_size'.
      let block_width = 1;
          block_size_in_bytes =
            size_t (GOB_SIZE_IN_BYTES * block_width * block_height' * block_depth');
          block_height_in_bytes = size_t (GOB_HEIGHT_IN_BYTES * block_height')
      in for_each_opt [0..<depth] (\<lambda>z0 destination'.
           lift (gob_address_z z0 block_height' block_depth' slice_size') (\<lambda>offset_z.
           for_step 0 height GOB_HEIGHT_IN_BYTES (\<lambda>y0 destination'.
             lift (gob_address_y y0 block_height_in_bytes block_size_in_bytes
                     width_in_gobs') (\<lambda>offset_y.
             for_step 0 (size_t (width * bytes_per_pixel)) GOB_WIDTH_IN_BYTES
               (\<lambda>x0 destination'.
                  let offset_x = gob_address_x x0 block_size_in_bytes;
                      gob_address = size_t (offset_z + offset_y + offset_x)
                  in Some (swizzle_inner_gob DESWIZZLE width height source bytes_per_pixel
                             z0 y0 x0 gob_address destination'))
               destination'))
             destination'))
           destination)))"

text \<open>
  The variant the fast path is compared with: \<open>swizzle_inner\<close> with every GOB sent to
  the per-byte \<open>swizzle_deswizzle_gob\<close>.
\<close>

definition swizzle_inner_slow ::
  "bool \<Rightarrow> nat \<Rightarrow> nat \<Rightarrow> nat \<Rightarrow> buffer \<Rightarrow> buffer \<Rightarrow> BlockHeight \<Rightarrow> nat \<Rightarrow> nat
     \<Rightarrow> (failure + buffer) option" where
  "swizzle_inner_slow DESWIZZLE width height depth source destination block_height
       block_depth' bytes_per_pixel =
     (let block_height' = static_cast block_height in
      lift (width_in_gobs width bytes_per_pixel) (\<lambda>width_in_gobs'.
      lift (slice_size block_height' block_depth' width_in_gobs' height) (\<lambda>slice_size'.
      let block_width = 1;
          block_size_in_bytes =
            size_t (GOB_SIZE_IN_BYTES * block_width * block_height' * block_depth');
          block_height_in_bytes = size_t (GOB_HEIGHT_IN_BYTES * block_height')
      in for_each_opt [0..<depth] (\<lambda>z0 destination'.
           lift (gob_address_z z0 block_height' block_depth' slice_size') (\<lambda>offset_z.
           for_step 0 height GOB_HEIGHT_IN_BYTES (\<lambda>y0 destination'.
             lift (gob_address_y y0 block_height_in_bytes block_size_in_bytes
                     width_in_gobs') (\<lambda>offset_y.
             for_step 0 (size_t (width * bytes_per_pixel)) GOB_WIDTH_IN_BYTES
               (\<lambda>x0 destination'.
                  let offset_x = gob_address_x x0 block_size_in_bytes;
                      gob_address = size_t (offset_z + offset_y + offset_x)
                  in Some (swizzle_deswizzle_gob DESWIZZLE destination' source x0 y0 z0
                             width height bytes_per_pixel gob_address))
               destination'))
             destination'))
           destination)))"

text \<open>
  The two functions for a single mip level.  The destination is allocated before the
  length of the source is checked; the allocation itself is taken to succeed.
\<close>

definition swizzle_block_linear ::
  "nat \<Rightarrow> nat \<Rightarrow> nat \<Rightarrow> buffer \<Rightarrow> BlockHeight \<Rightarrow> nat \<Rightarrow> (failure + buffer) option" where
  "swizzle_block_linear width height depth source block_height bytes_per_pixel =
     lift (swizzled_mip_size width height depth block_height bytes_per_pixel)
       (\<lambda>swizzled_size.
     let destination = replicate swizzled_size (0::byte);
         expected_size = deswizzled_mip_size width height depth bytes_per_pixel
     in if length source < expected_size then Some (Inl NotEnoughData)
        else (let block_depth' = block_depth depth
              in swizzle_inner False width height depth source destination block_height
                   block_depth' bytes_per_pixel))"

definition deswizzle_block_linear ::
  "nat \<Rightarrow> nat \<Rightarrow> nat \<Rightarrow> buffer \<Rightarrow> BlockHeight \<Rightarrow> nat \<Rightarrow> (failure + buffer) option" where
  "deswizzle_block_linear width height depth source block_height bytes_per_pixel =
     (let destination = replicate
            (deswizzled_mip_size width height depth bytes_per_pixel) (0::byte)
      in lift (swizzled_mip_size width height depth block_height bytes_per_pixel)
           (\<lambda>expected_size.
         if length source < expected_size then Some (Inl NotEnoughData)
         else (let block_depth' = block_depth depth
               in swizzle_inner True width height depth source destination block_height
                    block_depth' bytes_per_pixel)))"

section \<open>surface.h: surfaces with array layers and mipmaps\<close>

text \<open>
  The block height of mip 0, as \<open>swizzled_surface_size\<close> and \<open>swizzle_surface_inner\<close>
  both compute it:
  \<open>(depth == 1) ? _block_height_mip0.value_or(block_height_mip0(div_round_up(height,
  block_height))) : BlockHeight::One\<close>.  The argument of \<open>value_or\<close> is evaluated whether
  or not a block height was supplied.
\<close>

definition surface_block_height_mip0 ::
  "nat \<Rightarrow> nat \<Rightarrow> nat \<Rightarrow> BlockHeight option \<Rightarrow> failure + BlockHeight" where
  "surface_block_height_mip0 height depth block_height block_height_mip0' =
     (if depth = 1
      then bind (div_round_up height block_height) (\<lambda>height_in_blocks'.
             let inferred = block_height_mip0 height_in_blocks'
             in Inr (case block_height_mip0' of Some bh \<Rightarrow> bh | None \<Rightarrow> inferred))
      else Inr BlockHeight_One)"

text \<open>
  One dimension of a mip level: \<open>std::max(div_round_up(dim >> mip, block), (size_t)1)\<close>.
\<close>

definition mip_dimension :: "nat \<Rightarrow> nat \<Rightarrow> nat \<Rightarrow> failure + nat" where
  "mip_dimension dim mip block =
     (if 64 \<le> mip then Inl ShiftTooFar
      else bind (div_round_up (drop_bit mip dim) block) (\<lambda>blocks. Inr (max blocks 1)))"

definition swizzled_surface_size ::
  "nat \<Rightarrow> nat \<Rightarrow> nat \<Rightarrow> BlockDim \<Rightarrow> BlockHeight option \<Rightarrow> nat \<Rightarrow> nat \<Rightarrow> nat
     \<Rightarrow> failure + nat" where
  "swizzled_surface_size width height depth block_dim block_height_mip0' bytes_per_pixel
       mipmap_count layer_count =
     (let block_width = dim_width block_dim;
          block_height = dim_height block_dim;
          block_depth' = dim_depth block_dim
      in bind (surface_block_height_mip0 height depth block_height block_height_mip0')
           (\<lambda>block_height_mip0''.
         bind (for_each [0..<mipmap_count] (\<lambda>mip mip_size.
                 bind (mip_dimension width mip block_width) (\<lambda>mip_width.
                 bind (mip_dimension height mip block_height) (\<lambda>mip_height.
                 bind (mip_dimension depth mip block_depth') (\<lambda>mip_depth.
                 let mip_block_height' = mip_block_height mip_height block_height_mip0''
                 in bind (swizzled_mip_size mip_width mip_height mip_depth
                            mip_block_height' bytes_per_pixel) (\<lambda>mip_size'.
                    Inr (size_t (mip_size + mip_size')))))))
               0) (\<lambda>mip_size.
         if layer_count > 1 then
           bind (align_layer_size mip_size height depth block_height_mip0'' 1)
             (\<lambda>layer_size. Inr (size_t (layer_size * layer_count)))
         else Inr mip_size)))"









text \<open>
  A valid surface descriptor: positive dimensions, 1 to 16 bytes per pixel, a pixel block
  of positive dimensions, at least one mip level and one layer, and a block height for
  mip 0 that is either left out or one of the six the hardware accepts.
\<close>

definition valid_surface ::
  "nat \<Rightarrow> nat \<Rightarrow> nat \<Rightarrow> BlockDim \<Rightarrow> BlockHeight option \<Rightarrow> nat \<Rightarrow> nat \<Rightarrow> nat \<Rightarrow> bool" where
  "valid_surface width height depth block_dim block_height_mip0' bytes_per_pixel
       mipmap_count layer_count \<longleftrightarrow>
     0 < width \<and> 0 < height \<and> 0 < depth
     \<and> 0 < dim_width block_dim \<and> 0 < dim_height block_dim \<and> 0 < dim_depth block_dim
     \<and> 1 \<le> bytes_per_pixel \<and> bytes_per_pixel \<le> 16
     \<and> 1 \<le> mipmap_count \<and> 1 \<le> layer_count
     \<and> (case block_height_mip0' of None \<Rightarrow> True | Some bh \<Rightarrow> valid_block_height bh)"

section \<open>The arithmetic without wrap-around\<close>

text \<open>
  The sizes and addresses as the natural numbers give them, with no reduction to 64
  bits and divisors that are not zero.  The program computes these values whenever all
  of them fit in 64 bits; the conditions under which it does are hypotheses of the
  properties below, and the lemmas named \<open>..._exact\<close> relate the two.
\<close>

definition exact_div_round_up :: "nat \<Rightarrow> nat \<Rightarrow> nat" where
  "exact_div_round_up x d = (x + d - 1) div d"

definition exact_round_up :: "nat \<Rightarrow> nat \<Rightarrow> nat" where
  "exact_round_up x n = ((x + n - 1) div n) * n"

definition exact_width_in_gobs :: "nat \<Rightarrow> nat \<Rightarrow> nat" where
  "exact_width_in_gobs width bytes_per_pixel =
     exact_div_round_up (width * bytes_per_pixel) GOB_WIDTH_IN_BYTES"

definition exact_height_in_blocks :: "nat \<Rightarrow> nat \<Rightarrow> nat" where
  "exact_height_in_blocks height block_height =
     exact_div_round_up height (block_height * GOB_HEIGHT_IN_BYTES)"

definition exact_block_depth :: "nat \<Rightarrow> nat" where
  "exact_block_depth depth =
     (let depth_and_half = depth + depth div 2 in
      if depth_and_half \<ge> 16 then 16
      else if depth_and_half \<ge> 8 then 8
      else if depth_and_half \<ge> 4 then 4
      else if depth_and_half \<ge> 2 then 2
      else 1)"

definition exact_block_height_mip0 :: "nat \<Rightarrow> BlockHeight" where
  "exact_block_height_mip0 height =
     (let height_and_half = height + height div 2 in
      if height_and_half \<ge> 128 then BlockHeight_Sixteen
      else if height_and_half \<ge> 64 then BlockHeight_Eight
      else if height_and_half \<ge> 32 then BlockHeight_Four
      else if height_and_half \<ge> 16 then BlockHeight_Two
      else BlockHeight_One)"

definition exact_align_layer_size :: "nat \<Rightarrow> nat \<Rightarrow> nat \<Rightarrow> BlockHeight \<Rightarrow> nat \<Rightarrow> nat" where
  "exact_align_layer_size layer_size height depth block_height_mip0' depth_in_gobs =
     (let gob_height = align_gob_height height (static_cast block_height_mip0');
          gob_depth = align_gob_depth depth depth_in_gobs;
          block_of_gobs_size = gob_height * gob_depth * GOB_SIZE_IN_BYTES;
          size_in_block_of_gobs = layer_size div block_of_gobs_size
      in if layer_size \<noteq> size_in_block_of_gobs * block_of_gobs_size
         then (size_in_block_of_gobs + 1) * block_of_gobs_size
         else layer_size)"

definition exact_slice_size :: "nat \<Rightarrow> nat \<Rightarrow> nat \<Rightarrow> nat \<Rightarrow> nat" where
  "exact_slice_size block_height block_depth' width_in_gobs' height =
     (let rob_size = GOB_SIZE_IN_BYTES * block_height * block_depth' * width_in_gobs'
      in exact_div_round_up height (block_height * GOB_HEIGHT_IN_BYTES) * rob_size)"

definition exact_gob_address_z :: "nat \<Rightarrow> nat \<Rightarrow> nat \<Rightarrow> nat \<Rightarrow> nat" where
  "exact_gob_address_z z block_height block_depth' slice_size' =
     (z div block_depth' * slice_size')
     + ((z AND (block_depth' - 1)) * GOB_SIZE_IN_BYTES * block_height)"

definition exact_gob_address_y :: "nat \<Rightarrow> nat \<Rightarrow> nat \<Rightarrow> nat \<Rightarrow> nat" where
  "exact_gob_address_y y block_height_in_bytes block_size_in_bytes image_width_in_gobs =
     (let block_y = y div block_height_in_bytes;
          block_inner_row = y mod block_height_in_bytes div GOB_HEIGHT_IN_BYTES
      in block_y * block_size_in_bytes * image_width_in_gobs
         + block_inner_row * GOB_SIZE_IN_BYTES)"

definition exact_gob_address_x :: "nat \<Rightarrow> nat \<Rightarrow> nat" where
  "exact_gob_address_x x block_size_in_bytes =
     (let block_x = x div GOB_WIDTH_IN_BYTES in block_x * block_size_in_bytes)"

definition exact_swizzled_mip_size :: "nat \<Rightarrow> nat \<Rightarrow> nat \<Rightarrow> BlockHeight \<Rightarrow> nat \<Rightarrow> nat" where
  "exact_swizzled_mip_size width height depth block_height bytes_per_pixel =
     (let width_in_gobs' = exact_width_in_gobs width bytes_per_pixel;
          height_in_blocks' = exact_height_in_blocks height (static_cast block_height);
          height_in_gobs = height_in_blocks' * static_cast block_height;
          depth_in_gobs = exact_round_up depth (exact_block_depth depth);
          num_gobs = width_in_gobs' * height_in_gobs * depth_in_gobs
      in num_gobs * GOB_SIZE_IN_BYTES)"

definition exact_deswizzled_mip_size :: "nat \<Rightarrow> nat \<Rightarrow> nat \<Rightarrow> nat \<Rightarrow> nat" where
  "exact_deswizzled_mip_size width height depth bytes_per_pixel =
     width * height * depth * bytes_per_pixel"

definition exact_surface_block_height_mip0 ::
  "nat \<Rightarrow> nat \<Rightarrow> nat \<Rightarrow> BlockHeight option \<Rightarrow> BlockHeight" where
  "exact_surface_block_height_mip0 height depth block_height block_height_mip0' =
     (if depth = 1
      then (case block_height_mip0' of
              Some bh \<Rightarrow> bh
            | None \<Rightarrow> exact_block_height_mip0 (exact_div_round_up height block_height))
      else BlockHeight_One)"

definition exact_mip_dimension :: "nat \<Rightarrow> nat \<Rightarrow> nat \<Rightarrow> nat" where
  "exact_mip_dimension dim mip block = max (exact_div_round_up (drop_bit mip dim) block) 1"

definition exact_swizzled_surface_size ::
  "nat \<Rightarrow> nat \<Rightarrow> nat \<Rightarrow> BlockDim \<Rightarrow> BlockHeight option \<Rightarrow> nat \<Rightarrow> nat \<Rightarrow> nat \<Rightarrow> nat" where
  "exact_swizzled_surface_size width height depth block_dim block_height_mip0'
       bytes_per_pixel mipmap_count layer_count =
     (let block_width = dim_width block_dim;
          block_height = dim_height block_dim;
          block_depth' = dim_depth block_dim;
          block_height_mip0'' =
            exact_surface_block_height_mip0 height depth block_height block_height_mip0';
          mip_size = fold (\<lambda>mip mip_size.
              let mip_width = exact_mip_dimension width mip block_width;
                  mip_height = exact_mip_dimension height mip block_height;
                  mip_depth = exact_mip_dimension depth mip block_depth';
                  mip_block_height' = mip_block_height mip_height block_height_mip0''
              in mip_size + exact_swizzled_mip_size mip_width mip_height mip_depth
                              mip_block_height' bytes_per_pixel)
            [0..<mipmap_count] 0
      in if layer_count > 1 then
           (let layer_size =
                  exact_align_layer_size mip_size height depth block_height_mip0'' 1
            in layer_size * layer_count)
         else mip_size)"

definition exact_deswizzled_surface_size ::
  "nat \<Rightarrow> nat \<Rightarrow> nat \<Rightarrow> BlockDim \<Rightarrow> nat \<Rightarrow> nat \<Rightarrow> nat \<Rightarrow> nat" where
  "exact_deswizzled_surface_size width height depth block_dim bytes_per_pixel mipmap_count
       layer_count =
     (let block_width = dim_width block_dim;
          block_height = dim_height block_dim;
          block_depth' = dim_depth block_dim;
          layer_size = fold (\<lambda>mip layer_size.
              let mip_width = exact_mip_dimension width mip block_width;
                  mip_height = exact_mip_dimension height mip block_height;
                  mip_depth = exact_mip_dimension depth mip block_depth'
              in layer_size + exact_deswizzled_mip_size mip_width mip_height mip_depth
                                bytes_per_pixel)
            [0..<mipmap_count] 0
      in layer_size * layer_count)"

text \<open>The values of \<open>for (i = start; i < stop; i += step)\<close> when the counter does not wrap.\<close>

function range_step :: "nat \<Rightarrow> nat \<Rightarrow> nat \<Rightarrow> nat list" where
  "range_step start stop step =
     (if start < stop \<and> 0 < step then start # range_step (start + step) stop step else [])"
  by pat_completeness auto
termination
  by (relation "measure (\<lambda>(start, stop, step). stop - start)") auto

declare range_step.simps [simp del]


section \<open>Auxiliary notions for the proofs\<close>

text \<open>
  A list of pairs \<open>(d, s)\<close> read as a program: \<open>destination[d] = source[s]\<close> for each
  pair in turn.  Every copy loop of the source is such a list.
\<close>

fun writes :: "(nat \<times> nat) list \<Rightarrow> buffer \<Rightarrow> buffer \<Rightarrow> failure + buffer" where
  "writes [] source destination = Inr destination"
| "writes ((d, s) # ps) source destination =
     (if d < length destination \<and> s < length source
      then writes ps source (destination[d := source ! s])
      else Inl OutOfBounds)"

text \<open>
  The address of the byte \<open>(x, y, z)\<close> of a mip level in the linear layout and in the
  block linear layout: the sum of the three GOB addresses and of the offset in the GOB.
\<close>

definition linear_address :: "nat \<Rightarrow> nat \<Rightarrow> nat \<Rightarrow> nat \<Rightarrow> nat \<Rightarrow> nat \<Rightarrow> nat" where
  "linear_address width height bytes_per_pixel x y z =
     z * width * height * bytes_per_pixel + y * width * bytes_per_pixel + x"

definition swizzled_address ::
  "nat \<Rightarrow> nat \<Rightarrow> nat \<Rightarrow> nat \<Rightarrow> nat \<Rightarrow> nat \<Rightarrow> nat \<Rightarrow> nat \<Rightarrow> nat" where
  "swizzled_address width height block_height block_depth' bytes_per_pixel x y z =
     exact_gob_address_z z block_height block_depth'
       (exact_slice_size block_height block_depth' (exact_width_in_gobs width bytes_per_pixel) height)
     + exact_gob_address_y y (GOB_HEIGHT_IN_BYTES * block_height)
         (GOB_SIZE_IN_BYTES * block_height * block_depth')
         (exact_width_in_gobs width bytes_per_pixel)
     + exact_gob_address_x x (GOB_SIZE_IN_BYTES * block_height * block_depth')
     + gob_offset x y"

text \<open>
  A pair (destination offset, source offset): swizzling writes the swizzled side,
  deswizzling the linear side.
\<close>

definition pair :: "bool \<Rightarrow> nat \<Rightarrow> nat \<Rightarrow> nat \<times> nat" where
  "pair DESWIZZLE swizzled_offset linear_offset =
     (if DESWIZZLE then (linear_offset, swizzled_offset)
      else (swizzled_offset, linear_offset))"

text \<open>The copies of \<open>swizzle_deswizzle_gob\<close> and of a whole mip level, in loop order.\<close>

definition gob_plan ::
  "bool \<Rightarrow> nat \<Rightarrow> nat \<Rightarrow> nat \<Rightarrow> nat \<Rightarrow> nat \<Rightarrow> nat \<Rightarrow> nat \<Rightarrow> (nat \<times> nat) list" where
  "gob_plan DESWIZZLE x0 y0 z0 width height bytes_per_pixel gob_address =
     concat (map (\<lambda>y. concat (map (\<lambda>x.
       if y0 + y < height \<and> x0 + x < width * bytes_per_pixel
       then [pair DESWIZZLE (gob_address + gob_offset x y)
              ((z0 * width * height * bytes_per_pixel)
               + ((y0 + y) * width * bytes_per_pixel) + x0 + x)]
       else []) [0..<GOB_WIDTH_IN_BYTES])) [0..<GOB_HEIGHT_IN_BYTES])"

definition mip_plan ::
  "bool \<Rightarrow> nat \<Rightarrow> nat \<Rightarrow> nat \<Rightarrow> nat \<Rightarrow> nat \<Rightarrow> nat \<Rightarrow> (nat \<times> nat) list" where
  "mip_plan DESWIZZLE width height depth block_height block_depth' bytes_per_pixel =
     concat (map (\<lambda>z0. concat (map (\<lambda>y0. concat (map (\<lambda>x0.
       gob_plan DESWIZZLE x0 y0 z0 width height bytes_per_pixel
         (exact_gob_address_z z0 block_height block_depth'
            (exact_slice_size block_height block_depth' (exact_width_in_gobs width bytes_per_pixel)
               height)
          + exact_gob_address_y y0 (GOB_HEIGHT_IN_BYTES * block_height)
              (GOB_SIZE_IN_BYTES * 1 * block_height * block_depth')
              (exact_width_in_gobs width bytes_per_pixel)
          + exact_gob_address_x x0 (GOB_SIZE_IN_BYTES * 1 * block_height * block_depth')))
       (range_step 0 (width * bytes_per_pixel) GOB_WIDTH_IN_BYTES)))
       (range_step 0 height GOB_HEIGHT_IN_BYTES))) [0..<depth])"

text \<open>
  Where byte \<open>x\<close> of a GOB row lies from the start of the row in the swizzled GOB: four
  runs of 16 bytes, at 0, 32, 256 and 288.
\<close>

definition row_offset :: "nat \<Rightarrow> nat" where
  "row_offset x =
     (if x < 16 then x else if x < 32 then x + 16 else if x < 48 then x + 224 else x + 240)"

definition shift :: "nat \<Rightarrow> nat \<Rightarrow> (nat \<times> nat) list \<Rightarrow> (nat \<times> nat) list" where
  "shift a b ps = map (\<lambda>(d, s). (d + a, s + b)) ps"

text \<open>No two pairs write one destination from different sources.\<close>

definition functional :: "(nat \<times> nat) list \<Rightarrow> bool" where
  "functional ps \<longleftrightarrow> (\<forall>p \<in> set ps. \<forall>q \<in> set ps. fst p = fst q \<longrightarrow> snd p = snd q)"
text \<open>The copies of one \<open>std::copy\<close> of \<open>n\<close> bytes, of a GOB row and of a complete GOB.\<close>

definition run :: "nat \<Rightarrow> nat \<Rightarrow> nat \<Rightarrow> (nat \<times> nat) list" where
  "run c a n = map (\<lambda>i. (c + i, a + i)) [0..<n]"

definition swizzle_row_plan :: "nat \<Rightarrow> nat \<Rightarrow> (nat \<times> nat) list" where
  "swizzle_row_plan d s =
     run (d + 288) (s + 48) 16 @ run (d + 256) (s + 32) 16 @ run (d + 32) (s + 16) 16
     @ run d s 16"

definition deswizzle_row_plan :: "nat \<Rightarrow> nat \<Rightarrow> (nat \<times> nat) list" where
  "deswizzle_row_plan d s =
     run (d + 48) (s + 288) 16 @ run (d + 32) (s + 256) 16 @ run (d + 16) (s + 32) 16
     @ run d s 16"

text \<open>
  A set of pairs (swizzled offset, linear offset) fills a segment: the swizzled offsets
  lie in \<open>[os, os + S)\<close>, the linear offsets are exactly \<open>[ol, ol + L)\<close>, and the
  pairs match the two sides one to one.
\<close>

definition segment :: "(nat \<times> nat) set \<Rightarrow> nat \<Rightarrow> nat \<Rightarrow> nat \<Rightarrow> nat \<Rightarrow> bool" where
  "segment P os S ol L \<longleftrightarrow>
     (\<forall>p \<in> P. os \<le> fst p \<and> fst p < os + S \<and> ol \<le> snd p \<and> snd p < ol + L)
     \<and> (\<forall>l. ol \<le> l \<and> l < ol + L \<longrightarrow> (\<exists>s. (s, l) \<in> P))
     \<and> (\<forall>p \<in> P. \<forall>q \<in> P. fst p = fst q \<longleftrightarrow> snd p = snd q)"

text \<open>
  The copies of a sequence of blocks laid out one after the other: block \<open>m\<close> makes the
  copies \<open>P m\<close> relative to its own start and takes \<open>ssz m\<close> bytes of the source and
  \<open>dsz m\<close> bytes of the destination.
\<close>

fun chain ::
  "(nat \<Rightarrow> (nat \<times> nat) list) \<Rightarrow> (nat \<Rightarrow> nat) \<Rightarrow> (nat \<Rightarrow> nat) \<Rightarrow> nat list \<Rightarrow> nat \<Rightarrow> nat
     \<Rightarrow> (nat \<times> nat) list" where
  "chain P ssz dsz [] so do = []"
| "chain P ssz dsz (m # ms) so do =
     shift do so (P m) @ chain P ssz dsz ms (so + ssz m) (do + dsz m)"


text \<open>
  The sizes of mip level \<open>mip\<close> of a surface without wrap-around, in the block linear
  and in the linear layout, and the block height and block depth the level is copied
  with.
\<close>

definition level_width :: "nat \<Rightarrow> BlockDim \<Rightarrow> nat \<Rightarrow> nat" where
  "level_width width block_dim mip = exact_mip_dimension width mip (dim_width block_dim)"

definition level_height :: "nat \<Rightarrow> BlockDim \<Rightarrow> nat \<Rightarrow> nat" where
  "level_height height block_dim mip = exact_mip_dimension height mip (dim_height block_dim)"

definition level_depth :: "nat \<Rightarrow> BlockDim \<Rightarrow> nat \<Rightarrow> nat" where
  "level_depth depth block_dim mip = exact_mip_dimension depth mip (dim_depth block_dim)"

definition level_block_height :: "nat \<Rightarrow> BlockDim \<Rightarrow> BlockHeight \<Rightarrow> nat \<Rightarrow> BlockHeight" where
  "level_block_height height block_dim bh0 mip =
     mip_block_height (level_height height block_dim mip) bh0"

definition level_swizzled_size ::
  "nat \<Rightarrow> nat \<Rightarrow> nat \<Rightarrow> BlockDim \<Rightarrow> BlockHeight \<Rightarrow> nat \<Rightarrow> nat \<Rightarrow> nat" where
  "level_swizzled_size width height depth block_dim bh0 bpp mip =
     exact_swizzled_mip_size (level_width width block_dim mip)
       (level_height height block_dim mip) (level_depth depth block_dim mip)
       (level_block_height height block_dim bh0 mip) bpp"

definition level_deswizzled_size :: "nat \<Rightarrow> nat \<Rightarrow> nat \<Rightarrow> BlockDim \<Rightarrow> nat \<Rightarrow> nat \<Rightarrow> nat" where
  "level_deswizzled_size width height depth block_dim bpp mip =
     exact_deswizzled_mip_size (level_width width block_dim mip)
       (level_height height block_dim mip) (level_depth depth block_dim mip) bpp"

text \<open>
  A surface fits when nothing the program computes for it wraps around: at most 64 mip
  levels, dimensions and pixel block dimensions below \<open>2 ^ 63\<close>, and a block linear size
  below \<open>2 ^ 64\<close>.
\<close>

definition surface_fits ::
  "nat \<Rightarrow> nat \<Rightarrow> nat \<Rightarrow> BlockDim \<Rightarrow> BlockHeight option \<Rightarrow> nat \<Rightarrow> nat \<Rightarrow> nat \<Rightarrow> bool" where
  "surface_fits width height depth block_dim block_height_mip0' bytes_per_pixel
       mipmap_count layer_count \<longleftrightarrow>
     width < 2 ^ 63 \<and> height < 2 ^ 63 \<and> depth < 2 ^ 63
     \<and> dim_width block_dim < 2 ^ 63 \<and> dim_height block_dim < 2 ^ 63
     \<and> dim_depth block_dim < 2 ^ 63
     \<and> mipmap_count \<le> 64
     \<and> exact_swizzled_surface_size width height depth block_dim block_height_mip0'
          bytes_per_pixel mipmap_count layer_count < 2 ^ 64"


section \<open>Block height of mip levels\<close>

lemmas BlockHeight_defs =
  BlockHeight_One_def BlockHeight_Two_def BlockHeight_Four_def BlockHeight_Eight_def
  BlockHeight_Sixteen_def BlockHeight_ThirtyTwo_def BlockHeight_Invalid_def

lemma valid_block_height_cases:
  "valid_block_height bh \<longleftrightarrow> static_cast bh \<in> {1, 2, 4, 8, 16, 32}"
  by (cases bh) (auto simp: valid_block_height_def BlockHeight_defs)

lemma valid_block_height_pow2:
  assumes "valid_block_height bh"
  obtains k where "static_cast bh = 2 ^ k"
proof -
  have "static_cast bh = 2 ^ 0 \<or> static_cast bh = 2 ^ 1 \<or> static_cast bh = 2 ^ 2
      \<or> static_cast bh = 2 ^ 3 \<or> static_cast bh = 2 ^ 4 \<or> static_cast bh = 2 ^ 5"
    using assms by (auto simp: valid_block_height_cases)
  then show ?thesis using that by blast
qed

lemma mip_block_height_loop_le: "mip_block_height_loop h b \<le> b"
proof (induction h b rule: mip_block_height_loop.induct)
  case (1 h b)
  show ?case
  proof (cases "h \<le> (b div 2) * 8 \<and> b > 1")
    case True
    then have "mip_block_height_loop h b = mip_block_height_loop h (b div 2)"
      by (subst mip_block_height_loop.simps) simp
    moreover have "mip_block_height_loop h (b div 2) \<le> b div 2" using 1 True by simp
    ultimately show ?thesis by simp
  next
    case False
    then have "mip_block_height_loop h b = b"
      by (subst mip_block_height_loop.simps) auto
    then show ?thesis by simp
  qed
qed

lemma mip_block_height_loop_small:
  "h \<le> 8 \<Longrightarrow> mip_block_height_loop h (2 ^ k) = 1"
proof (induction k)
  case 0
  show ?case by (subst mip_block_height_loop.simps) simp
next
  case (Suc k)
  have "(1::nat) \<le> 2 ^ k" by simp
  then have "(8::nat) * 1 \<le> 8 * 2 ^ k" by (rule mult_le_mono2)
  then have "h \<le> 2 ^ k * 8" using Suc.prems by linarith
  moreover have "Suc 0 < 2 * 2 ^ k"
    by (metis One_nat_def one_less_numeral_iff one_less_power power_Suc semiring_norm(76) zero_less_Suc)
  ultimately have "mip_block_height_loop h (2 ^ Suc k) = mip_block_height_loop h (2 ^ k)"
    by (subst mip_block_height_loop.simps) simp
  then show ?case using Suc by simp
qed

lemma div_mod_interval:
  fixes m n q :: nat
  assumes "q * n \<le> m" "m < q * n + n"
  shows "m div n = q" "m mod n = m - q * n"
proof -
  obtain r where r: "m = q * n + r" "r < n"
    using assms by (metis add_diff_inverse_nat nat_add_left_cancel_less not_less)
  then show "m div n = q" by simp
  from r show "m mod n = m - q * n" by simp
qed

lemma gob_offset_x_part:
  assumes "(x::nat) < 64"
  shows "(x mod 64) div 32 * 256 + (x mod 32) div 16 * 32 + x mod 16 =
      (if x < 16 then x else if x < 32 then x + 16
      else if x < 48 then x + 224 else x + 240)"
proof -
  consider "x < 16" | "16 \<le> x" "x < 32" | "32 \<le> x" "x < 48" | "48 \<le> x" "x < 64"
    using assms by linarith
  then show ?thesis
  proof cases
    case 1
    then show ?thesis by simp
  next
    case 2
    then show ?thesis
      using div_mod_interval[of 1 16 x] by simp
  next
    case 3
    then show ?thesis
      using div_mod_interval[of 1 32 x] div_mod_interval[of 2 16 x] by simp
  next
    case 4
    then show ?thesis
      using div_mod_interval[of 1 32 x] div_mod_interval[of 3 16 x]
        div_mod_interval[of 1 16 "x - 32"] by simp
  qed
qed

lemma gob_offset_row:
  assumes "x < 64" "y < 8"
  shows "gob_offset x y = GOB_ROW_OFFSETS ! y +
     (if x < 16 then x else if x < 32 then x + 16
      else if x < 48 then x + 224 else x + 240)"
proof -
  have y: "y = 0 \<or> y = 1 \<or> y = 2 \<or> y = 3 \<or> y = 4 \<or> y = 5 \<or> y = 6 \<or> y = 7"
    using assms by arith
  have r: "GOB_ROW_OFFSETS ! y = (y div 2) * 64 + (y mod 2) * 16"
    using y by (auto simp: GOB_ROW_OFFSETS_def)
  show ?thesis using assms r gob_offset_x_part[OF assms(1)] by (simp add: gob_offset_def)
qed

section \<open>The offset of a byte within a GOB\<close>

lemma gob_offset_take_drop:
  "gob_offset x y = push_bit 8 (take_bit 1 (drop_bit 5 x)) + (push_bit 6 (take_bit 2 (drop_bit 1 y))
     + (push_bit 5 (take_bit 1 (drop_bit 4 x)) + (push_bit 4 (take_bit 1 y) + take_bit 4 x)))"
proof -
  have "x mod 64 div 32 = x div 32 mod 2"
    using div_mult2_eq[of x 32 2] mod_mult2_eq[of x 32 2] by simp
  moreover have "x mod 32 div 16 = x div 16 mod 2"
    using mod_mult2_eq[of x 16 2] by simp
  moreover have "y mod 8 div 2 = y div 2 mod 4"
    using mod_mult2_eq[of y 2 4] by simp
  ultimately show ?thesis
    by (simp add: gob_offset_def push_bit_eq_mult take_bit_eq_mod drop_bit_eq_div)
qed

lemma gob_offset_or:
  "gob_offset x y = push_bit 8 (take_bit 1 (drop_bit 5 x)) OR (push_bit 6 (take_bit 2 (drop_bit 1 y))
     OR (push_bit 5 (take_bit 1 (drop_bit 4 x)) OR (push_bit 4 (take_bit 1 y) OR take_bit 4 x)))"
proof -
  let ?a = "push_bit 8 (take_bit 1 (drop_bit 5 x))"
  let ?b = "push_bit 6 (take_bit 2 (drop_bit 1 y))"
  let ?c = "push_bit 5 (take_bit 1 (drop_bit 4 x))"
  let ?d = "push_bit 4 (take_bit 1 y)"
  let ?e = "take_bit 4 x"
  have 1: "?d + ?e = ?d OR ?e"
    by (rule disjunctive_add_eq_or) (rule bit_eqI, auto simp: bit_simps)
  have 2: "?c + (?d OR ?e) = ?c OR (?d OR ?e)"
    by (rule disjunctive_add_eq_or) (rule bit_eqI, auto simp: bit_simps)
  have 3: "?b + (?c OR (?d OR ?e)) = ?b OR (?c OR (?d OR ?e))"
    by (rule disjunctive_add_eq_or) (rule bit_eqI, auto simp: bit_simps)
  have 4: "?a + (?b OR (?c OR (?d OR ?e))) = ?a OR (?b OR (?c OR (?d OR ?e)))"
    by (rule disjunctive_add_eq_or) (rule bit_eqI, auto simp: bit_simps)
  show ?thesis
    unfolding gob_offset_take_drop 1 2 3 4 ..
qed

lemma and_exp_nat: "(x::nat) AND 2 ^ n = push_bit n (take_bit 1 (drop_bit n x))"
  by (rule bit_eqI) (auto simp: bit_simps, simp_all add: bit_iff_odd_drop_bit)

lemma and_push_mask_nat:
  "(y::nat) AND push_bit k (mask m) = push_bit k (take_bit m (drop_bit k y))"
  by (rule bit_eqI) (auto simp: bit_simps)

lemma and_masks:
  fixes x y :: nat
  shows "x AND 0x20 = push_bit 5 (take_bit 1 (drop_bit 5 x))"
    and "x AND 0x10 = push_bit 4 (take_bit 1 (drop_bit 4 x))"
    and "x AND 0xF = take_bit 4 x"
    and "y AND 6 = push_bit 1 (take_bit 2 (drop_bit 1 y))"
    and "y AND 1 = take_bit 1 y"
proof -
  have m: "(0x20::nat) = 2 ^ 5" "(0x10::nat) = 2 ^ 4" "(0xF::nat) = mask 4"
     "(6::nat) = push_bit 1 (mask 2)"
    by (simp_all add: mask_eq_exp_minus_1 push_bit_eq_mult)
  show "x AND 0x20 = push_bit 5 (take_bit 1 (drop_bit 5 x))"
    by (subst m(1)) (rule and_exp_nat)
  show "x AND 0x10 = push_bit 4 (take_bit 1 (drop_bit 4 x))"
    by (subst m(2)) (rule and_exp_nat)
  show "x AND 0xF = take_bit 4 x"
    by (subst m(3)) (simp only: take_bit_eq_mask)
  show "y AND 6 = push_bit 1 (take_bit 2 (drop_bit 1 y))"
    by (subst m(4)) (rule and_push_mask_nat)
  show "y AND 1 = take_bit 1 y"
    by (rule bit_eqI) (auto simp: bit_simps)
qed

lemma gob_offset_bits:
  "gob_offset x y =
     (push_bit 3 (x AND 0x20)) OR (push_bit 5 (y AND 0x6)) OR (push_bit 1 (x AND 0x10))
       OR (push_bit 4 (y AND 1)) OR (x AND 0xF)"
proof -
  have "push_bit 3 (push_bit 5 a) = push_bit 8 a" "push_bit 5 (push_bit 1 a) = push_bit 6 a"
    "push_bit 1 (push_bit 4 a) = push_bit 5 a" for a :: nat
    by (simp_all only: push_bit_push_bit) simp_all
  then show ?thesis
    unfolding gob_offset_or and_masks by (simp only: ac_simps)
qed


section \<open>Lists of byte copies\<close>

lemma bind_simps [simp]:
  "bind (Inl e) f = Inl e" "bind (Inr a) f = f a"
  by (simp_all add: bind_def)

lemma for_each_append:
  "for_each (xs @ ys) body s = bind (for_each xs body s) (for_each ys body)"
  by (induction xs arbitrary: s) (auto split: sum.splits)

lemma for_each_cong:
  assumes "\<And>i s. i \<in> set xs \<Longrightarrow> f i s = g i s"
  shows "for_each xs f s = for_each xs g s"
  using assms by (induction xs arbitrary: s) (auto split: sum.splits)

lemma writes_append:
  "writes (ps @ qs) src dst = bind (writes ps src dst) (writes qs src)"
  by (induction ps src dst rule: writes.induct) auto

lemma writes_length: "writes ps src dst = Inr r \<Longrightarrow> length r = length dst"
  by (induction ps src dst rule: writes.induct) (auto split: if_splits)

lemma writes_failure: "writes ps src dst = Inl e \<Longrightarrow> e = OutOfBounds"
  by (induction ps src dst rule: writes.induct) (auto split: if_splits)

lemma writes_Inr_iff:
  "(\<exists>r. writes ps src dst = Inr r) \<longleftrightarrow>
     (\<forall>p \<in> set ps. fst p < length dst \<and> snd p < length src)"
  by (induction ps src dst rule: writes.induct) auto

lemma writes_Inl_iff:
  "writes ps src dst = Inl OutOfBounds \<longleftrightarrow>
     \<not> (\<forall>p \<in> set ps. fst p < length dst \<and> snd p < length src)"
  using writes_Inr_iff[of ps src dst] writes_failure[of ps src dst]
  by (cases "writes ps src dst") auto

lemma writes_nth_other:
  "writes ps src dst = Inr r \<Longrightarrow> i \<notin> fst ` set ps \<Longrightarrow> r ! i = dst ! i"
  by (induction ps src dst rule: writes.induct) (auto split: if_splits)

lemma functional_subset: "functional ps \<Longrightarrow> set qs \<subseteq> set ps \<Longrightarrow> functional qs"
  unfolding functional_def by blast

lemma functional_Cons: "functional (p # ps) \<Longrightarrow> functional ps"
  by (rule functional_subset) auto

lemma functionalD: "functional ps \<Longrightarrow> (d, s) \<in> set ps \<Longrightarrow> (d, s') \<in> set ps \<Longrightarrow> s = s'"
proof -
  assume f: "functional ps" and a: "(d, s) \<in> set ps" and b: "(d, s') \<in> set ps"
  from f a b have "fst (d, s) = fst (d, s') \<longrightarrow> snd (d, s) = snd (d, s')"
    unfolding functional_def by blast
  then show ?thesis by simp
qed

lemma functionalI:
  "(\<And>d s s'. (d, s) \<in> set ps \<Longrightarrow> (d, s') \<in> set ps \<Longrightarrow> s = s') \<Longrightarrow> functional ps"
  unfolding functional_def by (metis prod.collapse)

lemma fst_imageD: "d \<in> fst ` set ps \<Longrightarrow> \<exists>s. (d, s) \<in> set ps"
proof -
  assume "d \<in> fst ` set ps"
  then obtain q where q: "q \<in> set ps" "d = fst q" by (rule imageE)
  then have "(d, snd q) \<in> set ps" by simp
  then show ?thesis ..
qed

lemma writes_nth:
  "writes ps src dst = Inr r \<Longrightarrow> functional ps \<Longrightarrow> (d, s) \<in> set ps \<Longrightarrow> r ! d = src ! s"
proof (induction ps arbitrary: dst)
  case Nil
  then show ?case by simp
next
  case (Cons p ps)
  obtain d' s' where p: "p = (d', s')" by (cases p)
  from Cons.prems(1) have ok: "d' < length dst" "s' < length src"
    and rest: "writes ps src (dst[d' := src ! s']) = Inr r"
    unfolding p by (simp_all split: if_splits)
  have fps: "functional ps" using Cons.prems(2) by (rule functional_Cons)
  show ?case
  proof (cases "d \<in> fst ` set ps")
    case True
    then have "\<exists>s. (d, s) \<in> set ps" by (rule fst_imageD)
    then obtain s'' where in_ps: "(d, s'') \<in> set ps" ..
    have "(d, s'') \<in> set (p # ps)" using in_ps by simp
    then have "s'' = s"
      by (rule functionalD[OF Cons.prems(2) _ Cons.prems(3)])
    then have "(d, s) \<in> set ps" using in_ps by simp
    then show ?thesis by (rule Cons.IH[OF rest fps])
  next
    case False
    then have "(d, s) \<notin> set ps" by (metis fst_conv imageI)
    then have eq: "d = d'" "s = s'" using Cons.prems(3) p by auto
    have "r ! d = (dst[d' := src ! s']) ! d"
      using rest False by (rule writes_nth_other)
    then show ?thesis using eq ok by simp
  qed
qed

lemma writes_set_cong:
  assumes "set ps = set qs" and "functional ps"
  shows "writes ps src dst = writes qs src dst"
proof (cases "\<forall>p \<in> set ps. fst p < length dst \<and> snd p < length src")
  case False
  then show ?thesis
    using writes_Inl_iff[of ps src dst] writes_Inl_iff[of qs src dst] assms(1) by simp
next
  case True
  then obtain r r' where r: "writes ps src dst = Inr r" and r': "writes qs src dst = Inr r'"
    using writes_Inr_iff[of ps src dst] writes_Inr_iff[of qs src dst] assms(1) by auto
  have fq: "functional qs" using assms(2) by (rule functional_subset) (simp add: assms(1))
  have "r = r'"
  proof (rule nth_equalityI)
    show "length r = length r'" using writes_length[OF r] writes_length[OF r'] by simp
  next
    fix i assume "i < length r"
    show "r ! i = r' ! i"
    proof (cases "i \<in> fst ` set ps")
      case True
      then have "\<exists>s. (i, s) \<in> set ps" by (rule fst_imageD)
      then obtain s where s: "(i, s) \<in> set ps" ..
      then have "(i, s) \<in> set qs" using assms(1) by simp
      then show ?thesis
        using writes_nth[OF r assms(2) s] writes_nth[OF r' fq] by simp
    next
      case False
      then show ?thesis
        using writes_nth_other[OF r] writes_nth_other[OF r'] assms(1) by simp
    qed
  qed
  then show ?thesis using r r' by simp
qed
lemma for_each_writes:
  "for_each xs (\<lambda>i. writes (f i) src) dst = writes (concat (map f xs)) src dst"
  by (induction xs arbitrary: dst) (auto simp: writes_append bind_def split: sum.splits)
lemma copy_byte_writes: "copy_byte dst d src s = writes [(d, s)] src dst"
  by (simp add: copy_byte_def)
lemma std_copy_writes:
  "std_copy src a b dst c = writes (map (\<lambda>i. (c + i, a + i)) [0..<b - a]) src dst"
proof -
  have "std_copy src a b dst c = for_each [0..<b - a] (\<lambda>i. writes [(c + i, a + i)] src) dst"
    unfolding std_copy_def copy_byte_writes ..
  also have "\<dots> = writes (concat (map (\<lambda>i. [(c + i, a + i)]) [0..<b - a])) src dst"
    by (rule for_each_writes)
  also have "concat (map (\<lambda>i. [(c + i, a + i)]) [0..<b - a]) = map (\<lambda>i. (c + i, a + i)) [0..<b - a]"
    by (induction "b - a" arbitrary: b) (simp_all add: concat_map_singleton)
  finally show ?thesis .
qed
lemma writes_src_take:
  assumes "\<forall>p \<in> set ps. snd p < n"
  shows "writes ps (take n src) dst = writes ps src dst"
  using assms by (induction ps src dst rule: writes.induct) auto
lemma writes_shift:
  assumes "a \<le> length dst" and "b \<le> length src"
  shows "writes (shift a b ps) src dst =
     (case writes ps (drop b src) (drop a dst) of
        Inl e \<Rightarrow> Inl e | Inr part \<Rightarrow> Inr (take a dst @ part))"
  using assms
proof (induction ps arbitrary: dst)
  case Nil
  then show ?case by (simp add: shift_def)
next
  case (Cons p ps)
  obtain d s where p: "p = (d, s)" by (cases p)
  show ?case
  proof (cases "d < length dst - a \<and> s < length src - b")
    case False
    then show ?thesis using Cons.prems by (auto simp: shift_def p)
  next
    case True
    have upd: "drop a (dst[d + a := src ! (s + b)]) = (drop a dst)[d := drop b src ! s]"
      using True Cons.prems by (simp add: drop_update_swap add.commute)
    have tk: "take a (dst[d + a := src ! (s + b)]) = take a dst"
      by simp
    have "writes (shift a b (p # ps)) src dst
        = writes (shift a b ps) src (dst[d + a := src ! (s + b)])"
      using True by (auto simp: shift_def p)
    also have "\<dots> = (case writes ps (drop b src) (drop a (dst[d + a := src ! (s + b)])) of
        Inl e \<Rightarrow> Inl e | Inr part \<Rightarrow> Inr (take a (dst[d + a := src ! (s + b)]) @ part))"
      using Cons.prems by (intro Cons.IH) simp_all
    finally show ?thesis using True by (simp add: p upd tk split: sum.splits)
  qed
qed


section \<open>Copying one GOB\<close>

lemma gob_offset_row_offset:
  "x < 64 \<Longrightarrow> y < 8 \<Longrightarrow> gob_offset x y = GOB_ROW_OFFSETS ! y + row_offset x"
  by (simp add: gob_offset_row row_offset_def)

lemma set_run: "set (run c a n) = (\<lambda>i. (c + i, a + i)) ` {0..<n}"
  by (simp add: run_def)

lemma row_offset_add:
  assumes "i < 16"
  shows "row_offset i = i" "row_offset (16 + i) = 32 + i" "row_offset (32 + i) = 256 + i"
    "row_offset (48 + i) = 288 + i"
  using assms by (simp_all add: row_offset_def)

lemma lessThan_64_split:
  "{0..<64::nat} = {0..<16} \<union> (+) 16 ` {0..<16} \<union> (+) 32 ` {0..<16} \<union> (+) 48 ` {0..<16}"
proof -
  have "(+) 16 ` {0..<16::nat} = {16..<32}" "(+) 32 ` {0..<16::nat} = {32..<48}"
    "(+) 48 ` {0..<16::nat} = {48..<64}"
    by (simp_all only: image_add_atLeastLessThan) simp_all
  then show ?thesis by (simp add: ivl_disj_un)
  qed

lemma set_swizzle_row_plan:
  "set (swizzle_row_plan d s) = (\<lambda>j. (d + row_offset j, s + j)) ` {0..<64}"
proof -
  let ?f = "\<lambda>j. (d + row_offset j, s + j)"
  have a: "?f ` {0..<16} = (\<lambda>i. (d + i, s + i)) ` {0..<16}"
    by (rule image_cong) (simp_all add: row_offset_add)
  have b: "?f ` (+) 16 ` {0..<16} = (\<lambda>i. (d + 32 + i, s + 16 + i)) ` {0..<16}"
    unfolding image_image by (rule image_cong) (simp_all add: row_offset_add)
  have c: "?f ` (+) 32 ` {0..<16} = (\<lambda>i. (d + 256 + i, s + 32 + i)) ` {0..<16}"
    unfolding image_image by (rule image_cong) (simp_all add: row_offset_add)
  have e: "?f ` (+) 48 ` {0..<16} = (\<lambda>i. (d + 288 + i, s + 48 + i)) ` {0..<16}"
    unfolding image_image by (rule image_cong) (simp_all add: row_offset_add)
  show ?thesis
    unfolding swizzle_row_plan_def set_append set_run lessThan_64_split image_Un a b c e
    by (simp only: Un_ac)
qed

lemma set_deswizzle_row_plan:
  "set (deswizzle_row_plan d s) = (\<lambda>j. (d + j, s + row_offset j)) ` {0..<64}"
proof -
  let ?f = "\<lambda>j. (d + j, s + row_offset j)"
  have a: "?f ` {0..<16} = (\<lambda>i. (d + i, s + i)) ` {0..<16}"
    by (rule image_cong) (simp_all add: row_offset_add)
  have b: "?f ` (+) 16 ` {0..<16} = (\<lambda>i. (d + 16 + i, s + 32 + i)) ` {0..<16}"
    unfolding image_image by (rule image_cong) (simp_all add: row_offset_add)
  have c: "?f ` (+) 32 ` {0..<16} = (\<lambda>i. (d + 32 + i, s + 256 + i)) ` {0..<16}"
    unfolding image_image by (rule image_cong) (simp_all add: row_offset_add)
  have e: "?f ` (+) 48 ` {0..<16} = (\<lambda>i. (d + 48 + i, s + 288 + i)) ` {0..<16}"
    unfolding image_image by (rule image_cong) (simp_all add: row_offset_add)
  show ?thesis
    unfolding deswizzle_row_plan_def set_append set_run lessThan_64_split image_Un a b c e
    by (simp only: Un_ac)
qed

lemma std_copy_run:
  "std_copy src a (a + n) dst c = writes (run c a n) src dst"
  by (simp add: std_copy_writes run_def)

lemma swizzle_gob_row_writes:
  "swizzle_gob_row dst dp doff src sp soff
     = writes (swizzle_row_plan (dp + doff) (sp + soff)) src dst"
proof -
  have n: "sp + soff + 64 = (sp + soff + 48) + 16" "sp + soff + 48 = (sp + soff + 32) + 16"
    "sp + soff + 32 = (sp + soff + 16) + 16"
    by simp_all
  show ?thesis
    unfolding swizzle_gob_row_def swizzle_row_plan_def writes_append
    by (subst n(1), subst n(2), subst n(3)) (simp only: std_copy_run)
qed

lemma deswizzle_gob_row_writes:
  "deswizzle_gob_row dst dp doff src sp soff
     = writes (deswizzle_row_plan (dp + doff) (sp + soff)) src dst"
proof -
  have n: "sp + soff + 304 = (sp + soff + 288) + 16" "sp + soff + 272 = (sp + soff + 256) + 16"
    "sp + soff + 48 = (sp + soff + 32) + 16"
    by simp_all
  show ?thesis
    unfolding deswizzle_gob_row_def deswizzle_row_plan_def writes_append
    by (subst n(1), subst n(2), subst n(3)) (simp only: std_copy_run)
qed

lemma in_set_gob_plan:
  "p \<in> set (gob_plan D x0 y0 z0 w h bpp ga) \<longleftrightarrow>
     (\<exists>y x. y < 8 \<and> x < 64 \<and> y0 + y < h \<and> x0 + x < w * bpp
        \<and> p = pair D (ga + gob_offset x y)
                 ((z0 * w * h * bpp) + ((y0 + y) * w * bpp) + x0 + x))"
  unfolding gob_plan_def GOB_WIDTH_IN_BYTES_def GOB_HEIGHT_IN_BYTES_def
  apply (auto split: if_splits)
   apply blast
  apply (rule_tac x = y in bexI)
   apply (rule_tac x = x in bexI)
    apply simp_all
  done

lemma in_set_swizzle_complete:
  "p \<in> set (concat (map (\<lambda>i. swizzle_row_plan (dp + GOB_ROW_OFFSETS ! i) (sp + row * i))
         [0..<8])) \<longleftrightarrow>
     (\<exists>y x. y < 8 \<and> x < 64 \<and> p = (dp + gob_offset x y, sp + row * y + x))"
proof -
  have "p \<in> set (concat (map (\<lambda>i. swizzle_row_plan (dp + GOB_ROW_OFFSETS ! i) (sp + row * i))
         [0..<8])) \<longleftrightarrow>
     (\<exists>y\<in>{0..<8}. p \<in> set (swizzle_row_plan (dp + GOB_ROW_OFFSETS ! y) (sp + row * y)))"
    by simp
  also have "\<dots> \<longleftrightarrow> (\<exists>y\<in>{0..<8}. \<exists>x\<in>{0..<64}.
      p = (dp + GOB_ROW_OFFSETS ! y + row_offset x, sp + row * y + x))"
    unfolding set_swizzle_row_plan image_iff ..
  also have "\<dots> \<longleftrightarrow> (\<exists>y\<in>{0..<8}. \<exists>x\<in>{0..<64}.
      p = (dp + gob_offset x y, sp + row * y + x))"
    by (intro bex_cong refl) (simp add: gob_offset_row_offset add.assoc)
  also have "\<dots> \<longleftrightarrow> (\<exists>y x. y < 8 \<and> x < 64 \<and> p = (dp + gob_offset x y, sp + row * y + x))"
    by (simp add: Bex_def)
  finally show ?thesis .
qed

lemma in_set_deswizzle_complete:
  "p \<in> set (concat (map (\<lambda>i. deswizzle_row_plan (dp + row * i) (sp + GOB_ROW_OFFSETS ! i))
         [0..<8])) \<longleftrightarrow>
     (\<exists>y x. y < 8 \<and> x < 64 \<and> p = (dp + row * y + x, sp + gob_offset x y))"
proof -
  have "p \<in> set (concat (map (\<lambda>i. deswizzle_row_plan (dp + row * i) (sp + GOB_ROW_OFFSETS ! i))
         [0..<8])) \<longleftrightarrow>
     (\<exists>y\<in>{0..<8}. p \<in> set (deswizzle_row_plan (dp + row * y) (sp + GOB_ROW_OFFSETS ! y)))"
    by simp
  also have "\<dots> \<longleftrightarrow> (\<exists>y\<in>{0..<8}. \<exists>x\<in>{0..<64}.
      p = (dp + row * y + x, sp + GOB_ROW_OFFSETS ! y + row_offset x))"
    unfolding set_deswizzle_row_plan image_iff ..
  also have "\<dots> \<longleftrightarrow> (\<exists>y\<in>{0..<8}. \<exists>x\<in>{0..<64}.
      p = (dp + row * y + x, sp + gob_offset x y))"
    by (intro bex_cong refl) (simp add: gob_offset_row_offset add.assoc)
  also have "\<dots> \<longleftrightarrow> (\<exists>y x. y < 8 \<and> x < 64 \<and> p = (dp + row * y + x, sp + gob_offset x y))"
    by (simp add: Bex_def)
  finally show ?thesis .
qed

lemma radix_inj:
  fixes a b n :: nat
  assumes "b < n" "b' < n" "a * n + b = a' * n + b'"
  shows "a = a'" "b = b'"
proof -
  have "(a * n + b) div n = a" "(a' * n + b') div n = a'" using assms(1,2) by simp_all
  then show "a = a'" using assms(3) by simp
  then show "b = b'" using assms(3) by simp
qed

lemma gob_offset_radix:
  "gob_offset x y = ((((x mod 64 div 32) * 4 + (y mod 8 div 2)) * 2 + (x mod 32 div 16)) * 2
      + y mod 2) * 16 + x mod 16"
  by (simp add: gob_offset_def algebra_simps)

lemma gob_offset_less: "gob_offset x y < 512"
proof -
  have "x mod 64 div 32 \<le> 1" "y mod 8 div 2 \<le> 3" "x mod 32 div 16 \<le> 1" "y mod 2 \<le> 1"
    "x mod 16 \<le> 15"
    by (simp_all add: div_le_mono2 less_Suc_eq_le[symmetric])
  then show ?thesis unfolding gob_offset_def by linarith
qed

lemma gob_offset_inj:
  assumes "x < 64" "x' < 64" "y < 8" "y' < 8" "gob_offset x y = gob_offset x' y'"
  shows "x = x'" "y = y'"
proof -
  let ?e = "\<lambda>x y. (((x mod 64 div 32) * 4 + (y mod 8 div 2)) * 2 + (x mod 32 div 16)) * 2
      + y mod 2"
  let ?f = "\<lambda>x y. ((x mod 64 div 32) * 4 + (y mod 8 div 2)) * 2 + (x mod 32 div 16)"
  let ?g = "\<lambda>x y. (x mod 64 div 32) * 4 + (y mod 8 div 2)"
  have eq: "?e x y * 16 + x mod 16 = ?e x' y' * 16 + x' mod 16"
    using assms(5) unfolding gob_offset_radix .
  have j: "x mod 16 = x' mod 16" and e: "?e x y = ?e x' y'"
    using radix_inj[OF _ _ eq] by simp_all
  have d: "y mod 2 = y' mod 2" and f: "?f x y = ?f x' y'"
    using radix_inj[OF _ _ e] by simp_all
  have b: "x mod 32 div 16 = x' mod 32 div 16" and g: "?g x y = ?g x' y'"
    using radix_inj[OF _ _ f] by simp_all
  have c: "y mod 8 div 2 = y' mod 8 div 2" and a: "x mod 64 div 32 = x' mod 64 div 32"
    using radix_inj[OF _ _ g] by simp_all
  have x_id: "u = (u mod 64 div 32) * 32 + (u mod 32 div 16) * 16 + u mod 16" if "u < 64"
    for u :: nat
  proof -
    have 1: "(u mod 32 div 16) * 16 + u mod 32 mod 16 = u mod 32"
      by (rule div_mult_mod_eq)
    have 2: "u mod 32 mod 16 = u mod 16" by (simp add: mod_mod_cancel)
    have 3: "(u div 32) * 32 + u mod 32 = u" by (rule div_mult_mod_eq)
    have 4: "u mod 64 div 32 = u div 32" using that by simp
    show ?thesis using 1 2 3 4 by linarith
  qed
  have y_id: "v = (v mod 8 div 2) * 2 + v mod 2" if "v < 8" for v :: nat
  proof -
    have 1: "(v div 2) * 2 + v mod 2 = v" by (rule div_mult_mod_eq)
    have 2: "v mod 8 div 2 = v div 2" using that by simp
    show ?thesis using 1 2 by linarith
  qed
  show "x = x'" using x_id[OF assms(1)] x_id[OF assms(2)] a b j by metis
  show "y = y'" using y_id[OF assms(3)] y_id[OF assms(4)] c d by metis
qed

lemma functional_gob_plan: "functional (gob_plan D x0 y0 z0 w h bpp ga)"
proof (rule functionalI)
  fix d s s'
  assume "(d, s) \<in> set (gob_plan D x0 y0 z0 w h bpp ga)"
    and "(d, s') \<in> set (gob_plan D x0 y0 z0 w h bpp ga)"
  then obtain y x y' x' where
    a: "y < 8" "x < 64" "x0 + x < w * bpp"
      "(d, s) = pair D (ga + gob_offset x y) (z0 * w * h * bpp + (y0 + y) * w * bpp + x0 + x)"
    and b: "y' < 8" "x' < 64" "x0 + x' < w * bpp"
      "(d, s') = pair D (ga + gob_offset x' y')
         (z0 * w * h * bpp + (y0 + y') * w * bpp + x0 + x')"
    unfolding in_set_gob_plan by blast
  show "s = s'"
  proof (cases D)
    case False
    then have "gob_offset x y = gob_offset x' y'" using a(4) b(4) by (simp add: pair_def)
    then have "x = x'" "y = y'" using gob_offset_inj a(1,2) b(1,2) by blast+
    then show ?thesis using a(4) b(4) False by (simp add: pair_def)
  next
    case True
    then have "(y0 + y) * (w * bpp) + (x0 + x) = (y0 + y') * (w * bpp) + (x0 + x')"
      using a(4) b(4) by (simp add: pair_def mult.assoc)
    then have "y0 + y = y0 + y'" "x0 + x = x0 + x'"
      using radix_inj[OF a(3) b(3)] by blast+
    then show ?thesis using a(4) b(4) True by (simp add: pair_def)
  qed
qed



section \<open>The address mapping of a mip level\<close>

lemma in_set_range_step:
  "0 < k \<Longrightarrow> i \<in> set (range_step s n k) \<longleftrightarrow> (\<exists>j. i = s + k * j \<and> i < n)"
proof (induction s n k rule: range_step.induct)
  case (1 s n k)
  show ?case
  proof (cases "s < n")
    case False
    then have "range_step s n k = []" by (subst range_step.simps) simp
    moreover have "\<not> (\<exists>j. i = s + k * j \<and> i < n)" using False by auto
    ultimately show ?thesis by simp
  next
    case True
    then have unfold: "range_step s n k = s # range_step (s + k) n k"
      using "1.prems" by (subst range_step.simps) simp
    have IH: "i \<in> set (range_step (s + k) n k) \<longleftrightarrow> (\<exists>j. i = s + k + k * j \<and> i < n)"
      using "1.IH" True "1.prems" by simp
    have "(\<exists>j. i = s + k * j \<and> i < n) \<longleftrightarrow> i = s \<or> (\<exists>j. i = s + k + k * j \<and> i < n)"
    proof
      assume "\<exists>j. i = s + k * j \<and> i < n"
      then obtain j where j: "i = s + k * j" "i < n" by blast
      show "i = s \<or> (\<exists>j. i = s + k + k * j \<and> i < n)"
      proof (cases j)
        case 0
        then show ?thesis using j by simp
      next
        case (Suc j')
        then have "i = s + k + k * j'" using j by simp
        then show ?thesis using j by blast
      qed
    next
      assume "i = s \<or> (\<exists>j. i = s + k + k * j \<and> i < n)"
      then show "\<exists>j. i = s + k * j \<and> i < n"
      proof
        assume "i = s"
        then have "i = s + k * 0 \<and> i < n" using True by simp
        then show ?thesis by blast
      next
        assume "\<exists>j. i = s + k + k * j \<and> i < n"
        then obtain j where "i = s + k + k * j" "i < n" by blast
        then have "i = s + k * Suc j \<and> i < n" by simp
        then show ?thesis by blast
      qed
    qed
    then show ?thesis using unfold IH by simp
  qed
qed

lemma gob_address_y_eq:
  "exact_gob_address_y y (GOB_HEIGHT_IN_BYTES * bh) bs wg
     = (y div 8 div bh) * bs * wg + (y div 8 mod bh) * 512"
proof -
  have "y mod (8 * bh) div 8 = y div 8 mod bh"
    by (simp add: mod_mult2_eq)
  then show ?thesis
    by (simp add: exact_gob_address_y_def GOB_HEIGHT_IN_BYTES_def GOB_SIZE_IN_BYTES_def
        GOB_WIDTH_IN_BYTES_def Let_def div_mult2_eq)
qed

lemma gob_address_x_eq: "exact_gob_address_x x bs = (x div 64) * bs"
  by (simp add: exact_gob_address_x_def GOB_WIDTH_IN_BYTES_def)

lemma gob_offset_mod: "gob_offset x y = gob_offset (x mod 64) (y mod 8)"
proof -
  have "x mod 64 mod 32 = x mod 32" "x mod 64 mod 16 = x mod 16" "y mod 8 mod 2 = y mod 2"
    by (simp_all add: mod_mod_cancel)
  then show ?thesis by (simp add: gob_offset_def)
qed

lemma gob_offset_step:
  "x' < 64 \<Longrightarrow> y' < 8 \<Longrightarrow> gob_offset (64 * i + x') (8 * j + y') = gob_offset x' y'"
  by (subst gob_offset_mod) simp

lemma swizzled_address_step:
  assumes "x' < 64" "y' < 8"
  shows "swizzled_address w h bh bd bpp (64 * i + x') (8 * j + y') z
    = exact_gob_address_z z bh bd (exact_slice_size bh bd (exact_width_in_gobs w bpp) h)
      + exact_gob_address_y (8 * j) (GOB_HEIGHT_IN_BYTES * bh) (GOB_SIZE_IN_BYTES * 1 * bh * bd)
          (exact_width_in_gobs w bpp)
      + exact_gob_address_x (64 * i) (GOB_SIZE_IN_BYTES * 1 * bh * bd)
      + gob_offset x' y'"
  using assms
  by (simp add: swizzled_address_def gob_address_y_eq gob_address_x_eq gob_offset_step)

lemma in_set_mip_plan:
  "p \<in> set (mip_plan D w h d bh bd bpp) \<longleftrightarrow>
     (\<exists>x y z. x < w * bpp \<and> y < h \<and> z < d
        \<and> p = pair D (swizzled_address w h bh bd bpp x y z) (linear_address w h bpp x y z))"
  (is "?L \<longleftrightarrow> ?R")
proof
  assume ?L
  then obtain z0 y0 x0 where z0: "z0 < d"
    and y0: "y0 \<in> set (range_step 0 h GOB_HEIGHT_IN_BYTES)"
    and x0: "x0 \<in> set (range_step 0 (w * bpp) GOB_WIDTH_IN_BYTES)"
    and p: "p \<in> set (gob_plan D x0 y0 z0 w h bpp
         (exact_gob_address_z z0 bh bd (exact_slice_size bh bd (exact_width_in_gobs w bpp) h)
          + exact_gob_address_y y0 (GOB_HEIGHT_IN_BYTES * bh) (GOB_SIZE_IN_BYTES * 1 * bh * bd)
              (exact_width_in_gobs w bpp)
          + exact_gob_address_x x0 (GOB_SIZE_IN_BYTES * 1 * bh * bd)))"
    unfolding mip_plan_def by auto
  obtain j where j: "y0 = 8 * j"
    using y0 by (auto simp: in_set_range_step GOB_HEIGHT_IN_BYTES_def)
  obtain i where i: "x0 = 64 * i"
    using x0 by (auto simp: in_set_range_step GOB_WIDTH_IN_BYTES_def)
  obtain y' x' where c: "y' < 8" "x' < 64" "y0 + y' < h" "x0 + x' < w * bpp"
    and pp: "p = pair D
        (exact_gob_address_z z0 bh bd (exact_slice_size bh bd (exact_width_in_gobs w bpp) h)
          + exact_gob_address_y y0 (GOB_HEIGHT_IN_BYTES * bh) (GOB_SIZE_IN_BYTES * 1 * bh * bd)
              (exact_width_in_gobs w bpp)
          + exact_gob_address_x x0 (GOB_SIZE_IN_BYTES * 1 * bh * bd) + gob_offset x' y')
        (z0 * w * h * bpp + (y0 + y') * w * bpp + x0 + x')"
    using p unfolding in_set_gob_plan by blast
  have "p = pair D (swizzled_address w h bh bd bpp (x0 + x') (y0 + y') z0)
      (linear_address w h bpp (x0 + x') (y0 + y') z0)"
    unfolding pp i j swizzled_address_step[OF c(2,1)] linear_address_def
    by (simp add: add.assoc)
  then show ?R using c z0 by blast
next
  assume ?R
  then obtain x y z where r: "x < w * bpp" "y < h" "z < d"
    and p: "p = pair D (swizzled_address w h bh bd bpp x y z) (linear_address w h bpp x y z)"
    by blast
  let ?x0 = "64 * (x div 64)" and ?y0 = "8 * (y div 8)"
  have xs: "?x0 + x mod 64 = x" and ys: "?y0 + y mod 8 = y" by simp_all
  have x0: "?x0 \<in> set (range_step 0 (w * bpp) GOB_WIDTH_IN_BYTES)"
    unfolding GOB_WIDTH_IN_BYTES_def using r(1) xs
    by (subst in_set_range_step) (simp, metis add_0 le_add1 le_less_trans)
  have y0: "?y0 \<in> set (range_step 0 h GOB_HEIGHT_IN_BYTES)"
    unfolding GOB_HEIGHT_IN_BYTES_def using r(2) ys
    by (subst in_set_range_step) (simp, metis add_0 le_add1 le_less_trans)
  have "p = pair D
        (exact_gob_address_z z bh bd (exact_slice_size bh bd (exact_width_in_gobs w bpp) h)
          + exact_gob_address_y ?y0 (GOB_HEIGHT_IN_BYTES * bh) (GOB_SIZE_IN_BYTES * 1 * bh * bd)
              (exact_width_in_gobs w bpp)
          + exact_gob_address_x ?x0 (GOB_SIZE_IN_BYTES * 1 * bh * bd)
          + gob_offset (x mod 64) (y mod 8))
        (z * w * h * bpp + (?y0 + y mod 8) * w * bpp + ?x0 + x mod 64)"
    using swizzled_address_step[of "x mod 64" "y mod 8" w h bh bd bpp "x div 64" "y div 8" z]
    unfolding p by (simp add: linear_address_def add.assoc)
  moreover have "y mod 8 < 8" "x mod 64 < 64" "?y0 + y mod 8 < h" "?x0 + x mod 64 < w * bpp"
    using r by simp_all
  ultimately have "p \<in> set (gob_plan D ?x0 ?y0 z w h bpp
         (exact_gob_address_z z bh bd (exact_slice_size bh bd (exact_width_in_gobs w bpp) h)
          + exact_gob_address_y ?y0 (GOB_HEIGHT_IN_BYTES * bh) (GOB_SIZE_IN_BYTES * 1 * bh * bd)
              (exact_width_in_gobs w bpp)
          + exact_gob_address_x ?x0 (GOB_SIZE_IN_BYTES * 1 * bh * bd)))"
    unfolding in_set_gob_plan by blast
  then have "\<exists>z0\<in>set [0..<d]. \<exists>y0\<in>set (range_step 0 h GOB_HEIGHT_IN_BYTES).
      \<exists>x0\<in>set (range_step 0 (w * bpp) GOB_WIDTH_IN_BYTES).
      p \<in> set (gob_plan D x0 y0 z0 w h bpp
         (exact_gob_address_z z0 bh bd (exact_slice_size bh bd (exact_width_in_gobs w bpp) h)
          + exact_gob_address_y y0 (GOB_HEIGHT_IN_BYTES * bh) (GOB_SIZE_IN_BYTES * 1 * bh * bd)
              (exact_width_in_gobs w bpp)
          + exact_gob_address_x x0 (GOB_SIZE_IN_BYTES * 1 * bh * bd)))"
    using x0 y0 r(3)
    apply -
    apply (rule bexI[of _ z])
     apply (rule bexI[of _ "8 * (y div 8)"])
      apply (rule bexI[of _ "64 * (x div 64)"])
       apply simp_all
    done
  then show ?L
    unfolding mip_plan_def by simp
qed

lemma radix_less:
  fixes a b :: nat
  assumes "a < A" "b < B"
  shows "a * B + b < A * B"
proof -
  have "a * B + b < a * B + B" using assms(2) by simp
  also have "\<dots> = (a + 1) * B" by simp
  also have "\<dots> \<le> A * B" using assms(1) by (intro mult_le_mono1) simp
  finally show ?thesis .
qed

lemma div_less_div_round_up:
  assumes "0 < k" "x < n"
  shows "x div k < exact_div_round_up n k"
proof -
  have "x + k \<le> n + k - 1" using assms by simp
  then have "(x + k) div k \<le> (n + k - 1) div k" by (rule div_le_mono)
  moreover have "(x + k) div k = x div k + 1"
    using assms(1) div_add_self2[of k x] by simp
  ultimately show ?thesis by (simp add: exact_div_round_up_def)
qed

lemma div_round_up_mult_ge:
  assumes "0 < k"
  shows "n \<le> exact_div_round_up n k * k"
proof (cases "n = 0")
  case True
  then show ?thesis by simp
next
  case False
  then have "(n - 1) div k < exact_div_round_up n k"
    using assms by (intro div_less_div_round_up) simp_all
  then have "((n - 1) div k + 1) * k \<le> exact_div_round_up n k * k"
    by (intro mult_le_mono1) simp
  moreover have "n - 1 < ((n - 1) div k + 1) * k"
    using assms dividend_less_div_times[of k "n - 1"] by (simp add: algebra_simps)
  ultimately show ?thesis by linarith
qed

lemma and_mask_pow2: "(z::nat) AND (2 ^ k - 1) = z mod 2 ^ k"
proof -
  have "(2::nat) ^ k - 1 = mask k" by (rule mask_eq_exp_minus_1[symmetric])
  then have "z AND (2 ^ k - 1) = take_bit k z" by (simp only: take_bit_eq_mask)
  then show ?thesis by (simp only: take_bit_eq_mod)
qed

lemma swizzled_address_radix:
  assumes "bd = 2 ^ k"
  shows "swizzled_address w h bh bd bpp x y z =
      ((z div bd * exact_height_in_blocks h bh + y div 8 div bh) * exact_width_in_gobs w bpp + x div 64)
        * (512 * bh * bd)
      + (((z mod bd) * bh + y div 8 mod bh) * 512 + gob_offset x y)"
  unfolding swizzled_address_def gob_address_y_eq gob_address_x_eq exact_gob_address_z_def
    exact_slice_size_def exact_height_in_blocks_def Let_def assms and_mask_pow2
  by (simp add: GOB_SIZE_IN_BYTES_def GOB_WIDTH_IN_BYTES_def GOB_HEIGHT_IN_BYTES_def
      algebra_simps)

lemma inner_offset_less:
  assumes "0 < bh" "0 < bd"
  shows "((z mod bd) * bh + y div 8 mod bh) * 512 + gob_offset x y < 512 * bh * bd"
proof -
  have a: "(z mod bd) * bh + y div 8 mod bh < bd * bh"
    using assms by (intro radix_less) simp_all
  have "((z mod bd) * bh + y div 8 mod bh) * 512 + gob_offset x y < (bd * bh) * 512"
    by (rule radix_less[OF a gob_offset_less])
  then show ?thesis by (simp add: mult.commute mult.left_commute)
qed

lemma swizzled_address_less:
  assumes "bd = 2 ^ k" "0 < bh" "x < w * bpp" "y < h" "z < d"
  shows "swizzled_address w h bh bd bpp x y z
    < exact_width_in_gobs w bpp * (exact_height_in_blocks h bh * bh) * exact_round_up d bd * 512"
proof -
  let ?hb = "exact_height_in_blocks h bh" and ?wg = "exact_width_in_gobs w bpp"
  have bd: "0 < bd" using assms(1) by simp
  have X: "x div 64 < ?wg"
    unfolding exact_width_in_gobs_def GOB_WIDTH_IN_BYTES_def
    using assms(3) by (intro div_less_div_round_up) simp_all
  have "y div (bh * 8) < ?hb"
    unfolding exact_height_in_blocks_def GOB_HEIGHT_IN_BYTES_def
    using assms(2,4) by (intro div_less_div_round_up) simp_all
  then have Y: "y div 8 div bh < ?hb" by (metis div_mult2_eq mult.commute)
  have Z: "z div bd < exact_div_round_up d bd"
    using bd assms(5) by (intro div_less_div_round_up)
  have "z div bd * ?hb + y div 8 div bh < exact_div_round_up d bd * ?hb"
    using Z Y by (rule radix_less)
  then have "(z div bd * ?hb + y div 8 div bh) * ?wg + x div 64
      < exact_div_round_up d bd * ?hb * ?wg"
    using X by (rule radix_less)
  then have "((z div bd * ?hb + y div 8 div bh) * ?wg + x div 64) * (512 * bh * bd)
      + (((z mod bd) * bh + y div 8 mod bh) * 512 + gob_offset x y)
      < exact_div_round_up d bd * ?hb * ?wg * (512 * bh * bd)"
    using inner_offset_less[OF assms(2) bd] by (rule radix_less)
  also have "\<dots> = ?wg * (?hb * bh) * exact_round_up d bd * 512"
    by (simp add: exact_round_up_def exact_div_round_up_def algebra_simps)
  finally show ?thesis unfolding swizzled_address_radix[OF assms(1)] .
qed

lemma swizzled_address_inj:
  assumes "bd = 2 ^ k" "0 < bh" "x < w * bpp" "y < h" "x' < w * bpp" "y' < h"
    and eq: "swizzled_address w h bh bd bpp x y z = swizzled_address w h bh bd bpp x' y' z'"
  shows "x = x'" "y = y'" "z = z'"
proof -
  let ?hb = "exact_height_in_blocks h bh" and ?wg = "exact_width_in_gobs w bpp"
  have bd: "0 < bd" using assms(1) by simp
  have X: "x div 64 < ?wg" "x' div 64 < ?wg"
    unfolding exact_width_in_gobs_def GOB_WIDTH_IN_BYTES_def
    using assms(3,5) by (auto intro!: div_less_div_round_up)
  have "y div (bh * 8) < ?hb" "y' div (bh * 8) < ?hb"
    unfolding exact_height_in_blocks_def GOB_HEIGHT_IN_BYTES_def
    using assms(2,4,6) by (auto intro!: div_less_div_round_up)
  then have Y: "y div 8 div bh < ?hb" "y' div 8 div bh < ?hb"
    by (metis div_mult2_eq mult.commute)+
  note e1 = eq[unfolded swizzled_address_radix[OF assms(1)]]
  note i = inner_offset_less[OF assms(2) bd]
  have q: "(z div bd * ?hb + y div 8 div bh) * ?wg + x div 64
      = (z' div bd * ?hb + y' div 8 div bh) * ?wg + x' div 64"
    and r: "((z mod bd) * bh + y div 8 mod bh) * 512 + gob_offset x y
      = ((z' mod bd) * bh + y' div 8 mod bh) * 512 + gob_offset x' y'"
    using radix_inj[OF i i e1] by blast+
  have g: "gob_offset x y = gob_offset x' y'"
    and s: "(z mod bd) * bh + y div 8 mod bh = (z' mod bd) * bh + y' div 8 mod bh"
    using radix_inj[OF gob_offset_less gob_offset_less r] by blast+
  have yi: "y div 8 mod bh = y' div 8 mod bh" and zi: "z mod bd = z' mod bd"
    using radix_inj[OF _ _ s] assms(2) by simp_all
  have xd: "x div 64 = x' div 64"
    and t: "z div bd * ?hb + y div 8 div bh = z' div bd * ?hb + y' div 8 div bh"
    using radix_inj[OF X q] by blast+
  have yd: "y div 8 div bh = y' div 8 div bh" and zd: "z div bd = z' div bd"
    using radix_inj[OF Y t] by blast+
  have "gob_offset (x mod 64) (y mod 8) = gob_offset (x' mod 64) (y' mod 8)"
    using g gob_offset_mod by metis
  then have xm: "x mod 64 = x' mod 64" and ym: "y mod 8 = y' mod 8"
    using gob_offset_inj[of "x mod 64" "x' mod 64" "y mod 8" "y' mod 8"] by simp_all
  show "x = x'" using xd xm by (metis div_mult_mod_eq)
  have "y div 8 = y' div 8" using yd yi by (metis div_mult_mod_eq)
  then show "y = y'" using ym by (metis div_mult_mod_eq)
  show "z = z'" using zd zi by (metis div_mult_mod_eq)
qed

lemma linear_address_radix:
  "linear_address w h bpp x y z = (z * h + y) * (w * bpp) + x"
  by (simp add: linear_address_def algebra_simps)

lemma linear_address_less:
  assumes "x < w * bpp" "y < h" "z < d"
  shows "linear_address w h bpp x y z < w * h * d * bpp"
proof -
  have "z * h + y < d * h" using assms(3,2) by (rule radix_less)
  then have "(z * h + y) * (w * bpp) + x < d * h * (w * bpp)"
    using assms(1) by (rule radix_less)
  then show ?thesis by (simp add: linear_address_radix mult_ac)
qed

lemma linear_address_inj:
  assumes "x < w * bpp" "y < h" "x' < w * bpp" "y' < h"
    and "linear_address w h bpp x y z = linear_address w h bpp x' y' z'"
  shows "x = x'" "y = y'" "z = z'"
proof -
  have e: "(z * h + y) * (w * bpp) + x = (z' * h + y') * (w * bpp) + x'"
    using assms(5) by (simp only: linear_address_radix)
  have x: "x = x'" and f: "z * h + y = z' * h + y'"
    using radix_inj[OF assms(1,3) e] by blast+
  show "x = x'" by (rule x)
  show "y = y'" "z = z'" using radix_inj[OF assms(2,4) f] by blast+
qed

lemma linear_address_cover:
  assumes "l < w * h * d * bpp"
  shows "\<exists>x y z. x < w * bpp \<and> y < h \<and> z < d \<and> linear_address w h bpp x y z = l"
proof -
  let ?row = "w * bpp"
  have pos: "0 < ?row" "0 < h"
    using assms by (auto intro: Nat.gr0I)
  have l: "l < d * (h * ?row)" using assms by (simp add: mult_ac)
  have x: "l mod ?row < ?row" and y: "l div ?row mod h < h" using pos by simp_all
  have "l div ?row div h = l div (h * ?row)"
    by (metis div_mult2_eq mult.commute)
  moreover have "l div (h * ?row) < d"
    using l pos by (simp add: less_mult_imp_div_less)
  ultimately have z: "l div ?row div h < d" by simp
  have "(l div ?row div h * h + l div ?row mod h) * ?row + l mod ?row = l"
    by (simp only: div_mult_mod_eq)
  then have "linear_address w h bpp (l mod ?row) (l div ?row mod h) (l div ?row div h) = l"
    by (simp only: linear_address_radix)
  then show ?thesis using x y z by blast
qed

lemma segment_mip_plan:
  assumes "bd = 2 ^ k" "0 < bh"
    and "exact_width_in_gobs w bpp * (exact_height_in_blocks h bh * bh) * exact_round_up d bd * 512 \<le> S"
  shows "segment (set (mip_plan False w h d bh bd bpp)) 0 S 0 (w * h * d * bpp)"
  unfolding segment_def
proof (intro conjI ballI allI impI)
  fix p assume "p \<in> set (mip_plan False w h d bh bd bpp)"
  then obtain x y z where r: "x < w * bpp" "y < h" "z < d"
    and p: "p = (swizzled_address w h bh bd bpp x y z, linear_address w h bpp x y z)"
    unfolding in_set_mip_plan pair_def by auto
  show "0 \<le> fst p" "0 \<le> snd p" by simp_all
  show "fst p < 0 + S"
    using swizzled_address_less[OF assms(1,2) r] assms(3) p by simp
  show "snd p < 0 + w * h * d * bpp"
    using linear_address_less[OF r] p by simp
next
  fix l assume "0 \<le> l \<and> l < 0 + w * h * d * bpp"
  then obtain x y z where "x < w * bpp" "y < h" "z < d" "linear_address w h bpp x y z = l"
    using linear_address_cover[of l w h d bpp] by auto
  then have "(swizzled_address w h bh bd bpp x y z, l) \<in> set (mip_plan False w h d bh bd bpp)"
    unfolding in_set_mip_plan pair_def by auto
  then show "\<exists>s. (s, l) \<in> set (mip_plan False w h d bh bd bpp)" ..
next
  fix p q assume "p \<in> set (mip_plan False w h d bh bd bpp)"
    and "q \<in> set (mip_plan False w h d bh bd bpp)"
  then obtain x y z x' y' z' where r: "x < w * bpp" "y < h" "x' < w * bpp" "y' < h"
    and p: "p = (swizzled_address w h bh bd bpp x y z, linear_address w h bpp x y z)"
    and q: "q = (swizzled_address w h bh bd bpp x' y' z', linear_address w h bpp x' y' z')"
    unfolding in_set_mip_plan pair_def by auto
  show "fst p = fst q \<longleftrightarrow> snd p = snd q"
  proof
    assume "fst p = fst q"
    then have "x = x'" "y = y'" "z = z'"
      using swizzled_address_inj[OF assms(1,2) r] p q by simp_all
    then show "snd p = snd q" using p q by simp
  next
    assume "snd p = snd q"
    then have "x = x'" "y = y'" "z = z'"
      using linear_address_inj[OF r] p q by simp_all
    then show "fst p = fst q" using p q by simp
  qed
qed

lemma set_mip_plan_swap:
  "set (mip_plan True w h d bh bd bpp) = prod.swap ` set (mip_plan False w h d bh bd bpp)"
proof (rule set_eqI)
  fix p
  have "p \<in> prod.swap ` set (mip_plan False w h d bh bd bpp)
      \<longleftrightarrow> prod.swap p \<in> set (mip_plan False w h d bh bd bpp)"
    by (metis image_iff swap_swap)
  also have "\<dots> \<longleftrightarrow> p \<in> set (mip_plan True w h d bh bd bpp)"
    unfolding in_set_mip_plan pair_def by (cases p) auto
  finally show "p \<in> set (mip_plan True w h d bh bd bpp)
      \<longleftrightarrow> p \<in> prod.swap ` set (mip_plan False w h d bh bd bpp)" ..
qed


section \<open>Segments\<close>

lemma segmentI:
  assumes "\<And>s l. (s, l) \<in> P \<Longrightarrow> os \<le> s \<and> s < os + S \<and> ol \<le> l \<and> l < ol + L"
    and "\<And>l. ol \<le> l \<Longrightarrow> l < ol + L \<Longrightarrow> \<exists>s. (s, l) \<in> P"
    and "\<And>s l s' l'. (s, l) \<in> P \<Longrightarrow> (s', l') \<in> P \<Longrightarrow> s = s' \<longleftrightarrow> l = l'"
  shows "segment P os S ol L"
  unfolding segment_def
proof (intro conjI ballI allI impI)
  fix p assume "p \<in> P"
  then have "(fst p, snd p) \<in> P" by simp
  then show "os \<le> fst p" "fst p < os + S" "ol \<le> snd p" "snd p < ol + L"
    using assms(1) by blast+
next
  fix l assume "ol \<le> l \<and> l < ol + L"
  then show "\<exists>s. (s, l) \<in> P" using assms(2) by blast
next
  fix p q assume "p \<in> P" "q \<in> P"
  then have "(fst p, snd p) \<in> P" "(fst q, snd q) \<in> P" by simp_all
  then show "fst p = fst q \<longleftrightarrow> snd p = snd q" by (rule assms(3))
qed

lemma segment_bounds:
  "segment P os S ol L \<Longrightarrow> (s, l) \<in> P \<Longrightarrow> os \<le> s \<and> s < os + S \<and> ol \<le> l \<and> l < ol + L"
  unfolding segment_def by (metis fst_conv snd_conv)

lemma segment_cover:
  "segment P os S ol L \<Longrightarrow> ol \<le> l \<Longrightarrow> l < ol + L \<Longrightarrow> \<exists>s. (s, l) \<in> P"
  unfolding segment_def by blast

lemma segment_match:
  "segment P os S ol L \<Longrightarrow> (s, l) \<in> P \<Longrightarrow> (s', l') \<in> P \<Longrightarrow> s = s' \<longleftrightarrow> l = l'"
  unfolding segment_def by (metis fst_conv snd_conv)

lemma segment_empty: "segment {} os S ol 0"
  by (rule segmentI) simp_all

lemma segment_pad:
  assumes "segment P os S ol L" "S \<le> S'"
  shows "segment P os S' ol L"
proof (rule segmentI)
  fix s l assume "(s, l) \<in> P"
  then show "os \<le> s \<and> s < os + S' \<and> ol \<le> l \<and> l < ol + L"
    using segment_bounds[OF assms(1)] assms(2) by fastforce
next
  fix l assume "ol \<le> l" "l < ol + L"
  then show "\<exists>s. (s, l) \<in> P" by (rule segment_cover[OF assms(1)])
next
  fix s l s' l' assume "(s, l) \<in> P" "(s', l') \<in> P"
  then show "s = s' \<longleftrightarrow> l = l'" by (rule segment_match[OF assms(1)])
qed

lemma segment_shift:
  assumes "segment P 0 S 0 L"
  shows "segment ((\<lambda>(s, l). (s + os, l + ol)) ` P) os S ol L"
proof (rule segmentI)
  fix s l assume "(s, l) \<in> (\<lambda>(s, l). (s + os, l + ol)) ` P"
  then obtain s0 l0 where "(s0, l0) \<in> P" "s = s0 + os" "l = l0 + ol" by auto
  then show "os \<le> s \<and> s < os + S \<and> ol \<le> l \<and> l < ol + L"
    using segment_bounds[OF assms] by fastforce
next
  fix l assume "ol \<le> l" "l < ol + L"
  then have "0 \<le> l - ol" "l - ol < 0 + L" by simp_all
  then obtain s where "(s, l - ol) \<in> P" using segment_cover[OF assms] by blast
  then have "(\<lambda>(s, l). (s + os, l + ol)) (s, l - ol) \<in> (\<lambda>(s, l). (s + os, l + ol)) ` P"
    by (rule imageI)
  then have "(s + os, l) \<in> (\<lambda>(s, l). (s + os, l + ol)) ` P"
    using \<open>ol \<le> l\<close> by simp
  then show "\<exists>s. (s, l) \<in> (\<lambda>(s, l). (s + os, l + ol)) ` P" ..
next
  fix s l s' l'
  assume "(s, l) \<in> (\<lambda>(s, l). (s + os, l + ol)) ` P" "(s', l') \<in> (\<lambda>(s, l). (s + os, l + ol)) ` P"
  then obtain s0 l0 s1 l1 where a: "(s0, l0) \<in> P" "s = s0 + os" "l = l0 + ol"
    and b: "(s1, l1) \<in> P" "s' = s1 + os" "l' = l1 + ol" by auto
  show "s = s' \<longleftrightarrow> l = l'"
    using segment_match[OF assms a(1) b(1)] a(2,3) b(2,3) by simp
qed

lemma segment_union:
  assumes "segment P os S ol L" "segment Q (os + S) S' (ol + L) L'"
  shows "segment (P \<union> Q) os (S + S') ol (L + L')"
proof (rule segmentI)
  fix s l assume "(s, l) \<in> P \<union> Q"
  then show "os \<le> s \<and> s < os + (S + S') \<and> ol \<le> l \<and> l < ol + (L + L')"
    using segment_bounds[OF assms(1), of s l] segment_bounds[OF assms(2), of s l] by auto
next
  fix l assume l: "ol \<le> l" "l < ol + (L + L')"
  show "\<exists>s. (s, l) \<in> P \<union> Q"
  proof (cases "l < ol + L")
    case True
    then show ?thesis using segment_cover[OF assms(1) l(1)] by blast
  next
    case False
    then have "ol + L \<le> l" "l < ol + L + L'" using l by simp_all
    then show ?thesis using segment_cover[OF assms(2)] by blast
  qed
next
  fix s l s' l' assume a: "(s, l) \<in> P \<union> Q" and b: "(s', l') \<in> P \<union> Q"
  consider "(s, l) \<in> P" "(s', l') \<in> P" | "(s, l) \<in> Q" "(s', l') \<in> Q"
    | "(s, l) \<in> P" "(s', l') \<in> Q" | "(s, l) \<in> Q" "(s', l') \<in> P"
    using a b by blast
  then show "s = s' \<longleftrightarrow> l = l'"
  proof cases
    case 1
    then show ?thesis by (rule segment_match[OF assms(1)])
  next
    case 2
    then show ?thesis by (rule segment_match[OF assms(2)])
  next
    case 3
    then have "s < os + S" "os + S \<le> s'" "l < ol + L" "ol + L \<le> l'"
      using segment_bounds[OF assms(1)] segment_bounds[OF assms(2)] by blast+
    then show ?thesis by simp
  next
    case 4
    then have "s' < os + S" "os + S \<le> s" "l' < ol + L" "ol + L \<le> l"
      using segment_bounds[OF assms(1)] segment_bounds[OF assms(2)] by blast+
    then show ?thesis by simp
  qed
qed

lemma set_shift: "set (shift a b ps) = (\<lambda>(d, s). (d + a, s + b)) ` set ps"
  by (simp add: shift_def)

lemma segment_chain:
  assumes "\<And>m. m \<in> set ms \<Longrightarrow> segment (set (P m)) 0 (dsz m) 0 (ssz m)"
  shows "segment (set (chain P ssz dsz ms so do)) do (sum_list (map dsz ms))
           so (sum_list (map ssz ms))"
  using assms
proof (induction ms arbitrary: so "do")
  case Nil
  show ?case by (simp add: segment_empty)
next
  case (Cons m ms)
  have a: "segment (set (shift do so (P m))) do (dsz m) so (ssz m)"
    unfolding set_shift using Cons.prems[of m] by (intro segment_shift) simp
  have b: "segment (set (chain P ssz dsz ms (so + ssz m) (do + dsz m))) (do + dsz m)
      (sum_list (map dsz ms)) (so + ssz m) (sum_list (map ssz ms))"
    using Cons.prems by (intro Cons.IH) simp
  show ?case using segment_union[OF a b] by simp
qed

lemma set_chain_swap:
  assumes "\<And>m. m \<in> set ms \<Longrightarrow> set (P' m) = prod.swap ` set (P m)"
  shows "set (chain P' dsz ssz ms do so) = prod.swap ` set (chain P ssz dsz ms so do)"
  using assms
proof (induction ms arbitrary: so "do")
  case Nil
  show ?case by simp
next
  case (Cons m ms)
  have X: "set (P' m) = prod.swap ` set (P m)" using Cons.prems[of m] by simp
  have "set (shift so do (P' m)) = (\<lambda>(d, s). (d + so, s + do)) ` prod.swap ` set (P m)"
    by (simp only: set_shift X)
  also have "\<dots> = (\<lambda>p. prod.swap ((\<lambda>(d, s). (d + do, s + so)) p)) ` set (P m)"
    unfolding image_image by (rule image_cong) auto
  also have "\<dots> = prod.swap ` set (shift do so (P m))"
    by (simp only: set_shift image_image)
  finally have "set (shift so do (P' m)) = prod.swap ` set (shift do so (P m))" .
  moreover have "set (chain P' dsz ssz ms (do + dsz m) (so + ssz m))
      = prod.swap ` set (chain P ssz dsz ms (so + ssz m) (do + dsz m))"
    using Cons.prems by (intro Cons.IH) simp
  ultimately show ?case by (simp add: image_Un)
qed

lemma functional_segment: "segment (set P) os S ol L \<Longrightarrow> functional P"
  by (rule functionalI) (use segment_match in blast)

lemma functional_segment_swap:
  assumes "segment G os S ol L" "set P' = prod.swap ` G"
  shows "functional P'"
proof (rule functionalI)
  fix d s s' assume "(d, s) \<in> set P'" "(d, s') \<in> set P'"
  then have "(s, d) \<in> G" "(s', d) \<in> G" using assms(2) by auto
  then show "s = s'" using segment_match[OF assms(1)] by blast
qed

lemma writes_segment_swizzle:
  assumes "segment (set P) 0 S 0 L" "L \<le> length src" "S \<le> length dst"
  shows "\<exists>r. writes P src dst = Inr r \<and> length r = length dst
    \<and> (\<forall>s l. (s, l) \<in> set P \<longrightarrow> r ! s = src ! l)
    \<and> (\<forall>i. i \<notin> fst ` set P \<longrightarrow> r ! i = dst ! i)"
proof -
  have "\<forall>p \<in> set P. fst p < length dst \<and> snd p < length src"
  proof
    fix p assume "p \<in> set P"
    then have "(fst p, snd p) \<in> set P" by simp
    from segment_bounds[OF assms(1) this] show "fst p < length dst \<and> snd p < length src"
      using assms(2,3) by simp
  qed
  then obtain r where r: "writes P src dst = Inr r"
    using writes_Inr_iff[of P src dst] by blast
  have "length r = length dst" using r by (rule writes_length)
  moreover have "r ! s = src ! l" if "(s, l) \<in> set P" for s l
    using r functional_segment[OF assms(1)] that by (rule writes_nth)
  moreover have "r ! i = dst ! i" if "i \<notin> fst ` set P" for i
    using r that by (rule writes_nth_other)
  ultimately show ?thesis using r by blast
qed

lemma writes_segment_deswizzle:
  assumes "segment G 0 S 0 L" "set P' = prod.swap ` G" "S \<le> length src" "L \<le> length dst"
  shows "\<exists>r. writes P' src dst = Inr r \<and> length r = length dst
    \<and> (\<forall>s l. (s, l) \<in> G \<longrightarrow> r ! l = src ! s)
    \<and> (\<forall>i. L \<le> i \<longrightarrow> r ! i = dst ! i)"
proof -
  have mem: "(l, s) \<in> set P' \<longleftrightarrow> (s, l) \<in> G" for s l
    using assms(2) by auto
  have "\<forall>p \<in> set P'. fst p < length dst \<and> snd p < length src"
  proof
    fix p assume "p \<in> set P'"
    then have "(snd p, fst p) \<in> G" using mem[of "fst p" "snd p"] by simp
    from segment_bounds[OF assms(1) this] show "fst p < length dst \<and> snd p < length src"
      using assms(3,4) by simp
  qed
  then obtain r where r: "writes P' src dst = Inr r"
    using writes_Inr_iff[of P' src dst] by blast
  have "length r = length dst" using r by (rule writes_length)
  moreover have "r ! l = src ! s" if "(s, l) \<in> G" for s l
  proof -
    have "(l, s) \<in> set P'" using that mem by simp
    with r functional_segment_swap[OF assms(1,2)] show ?thesis by (rule writes_nth)
  qed
  moreover have "r ! i = dst ! i" if "L \<le> i" for i
  proof -
    have "i \<notin> fst ` set P'"
    proof
      assume "i \<in> fst ` set P'"
      then have "\<exists>s. (i, s) \<in> set P'" by (rule fst_imageD)
      then obtain s where "(s, i) \<in> G" using mem by blast
      from segment_bounds[OF assms(1) this] show False using that by simp
    qed
    with r show ?thesis by (rule writes_nth_other)
  qed
  ultimately show ?thesis using r by blast
qed

lemma roundtrip_segment:
  assumes seg: "segment (set P) 0 S 0 L" and swap: "set P' = prod.swap ` set P"
    and b: "length b = L" and z: "S \<le> length z" and z': "length z' = L"
  shows "\<exists>sw. writes P b z = Inr sw \<and> length sw = length z \<and> writes P' sw z' = Inr b"
proof -
  have Lb: "L \<le> length b" using b by simp
  obtain sw where sw: "writes P b z = Inr sw \<and> length sw = length z
    \<and> (\<forall>s l. (s, l) \<in> set P \<longrightarrow> sw ! s = b ! l)
    \<and> (\<forall>i. i \<notin> fst ` set P \<longrightarrow> sw ! i = z ! i)"
    using writes_segment_swizzle[OF seg Lb z] ..
  have Ssw: "S \<le> length sw" and Lz: "L \<le> length z'" using sw z z' by simp_all
  obtain r where r: "writes P' sw z' = Inr r \<and> length r = length z'
    \<and> (\<forall>s l. (s, l) \<in> set P \<longrightarrow> r ! l = sw ! s)
    \<and> (\<forall>i. L \<le> i \<longrightarrow> r ! i = z' ! i)"
    using writes_segment_deswizzle[OF seg swap Ssw Lz] ..
  have "r = b"
  proof (rule nth_equalityI)
    show "length r = length b" using r z' b by simp
  next
    fix l assume "l < length r"
    then have "0 \<le> l" "l < 0 + L" using r z' by simp_all
    then obtain s where "(s, l) \<in> set P" using segment_cover[OF seg] by blast
    then show "r ! l = b ! l" using sw r by simp
  qed
  then show ?thesis using sw r by blast
qed


section \<open>Block heights and depths of valid surfaces\<close>

lemma mip_block_height_loop_pos: "0 < b \<Longrightarrow> 0 < mip_block_height_loop h b"
proof (induction h b rule: mip_block_height_loop.induct)
  case (1 h b)
  show ?case
  proof (cases "h \<le> (b div 2) * 8 \<and> b > 1")
    case True
    then have "mip_block_height_loop h b = mip_block_height_loop h (b div 2)"
      by (subst mip_block_height_loop.simps) simp
    moreover have "0 < b div 2" using True by simp
    ultimately show ?thesis using "1.IH" True by simp
  next
    case False
    then have "mip_block_height_loop h b = b"
      by (subst mip_block_height_loop.simps) auto
    then show ?thesis using "1.prems" by simp
  qed
qed

lemma align_gob_height_pos: "0 < g \<Longrightarrow> 0 < align_gob_height h g"
proof (induction h g rule: align_gob_height.induct)
  case (1 h g)
  show ?case
  proof (cases "h \<le> (g div 2) * 8 \<and> g > 1")
    case True
    then have "align_gob_height h g = align_gob_height h (g div 2)"
      by (subst align_gob_height.simps) simp
    moreover have "0 < g div 2" using True by simp
    ultimately show ?thesis using "1.IH" True by simp
  next
    case False
    then have "align_gob_height h g = g"
      by (subst align_gob_height.simps) auto
    then show ?thesis using "1.prems" by simp
  qed
qed

lemma align_gob_depth_one: "align_gob_depth d 1 = 1"
  by (subst align_gob_depth.simps) simp

lemma mip_block_depth_pow2: "\<exists>k. mip_block_depth m (2 ^ j) = 2 ^ k"
proof (induction j)
  case 0
  have "mip_block_depth m (2 ^ 0) = 1" by (subst mip_block_depth.simps) simp
  then have "mip_block_depth m (2 ^ 0) = 2 ^ 0" by simp
  then show ?case by blast
next
  case (Suc j)
  show ?case
  proof (cases "m \<le> 2 ^ Suc j div 2 \<and> (2::nat) ^ Suc j > 1")
    case True
    then have "mip_block_depth m (2 ^ Suc j) = mip_block_depth m (2 ^ Suc j div 2)"
      by (subst mip_block_depth.simps) simp
    then have "mip_block_depth m (2 ^ Suc j) = mip_block_depth m (2 ^ j)" by simp
    then show ?thesis using Suc by simp
  next
    case False
    then have "mip_block_depth m (2 ^ Suc j) = 2 ^ Suc j"
      by (subst mip_block_depth.simps) auto
    then show ?thesis by blast
  qed
qed

lemma exact_block_depth_cases:
  "exact_block_depth d = (if d \<ge> 11 then 16 else if d \<ge> 6 then 8 else if d \<ge> 3 then 4
     else if d \<ge> 2 then 2 else 1)"
  unfolding exact_block_depth_def Let_def by auto

lemma exact_block_depth_pow2: "\<exists>j. exact_block_depth d = 2 ^ j"
proof -
  have "exact_block_depth d = 2 ^ 4 \<or> exact_block_depth d = 2 ^ 3 \<or> exact_block_depth d = 2 ^ 2
      \<or> exact_block_depth d = 2 ^ 1 \<or> exact_block_depth d = 2 ^ 0"
    unfolding exact_block_depth_cases by simp
  then show ?thesis by blast
qed

lemma mip_block_depth_block_depth_pow2: "\<exists>k. mip_block_depth m (exact_block_depth d) = 2 ^ k"
  using exact_block_depth_pow2[of d] mip_block_depth_pow2[of m] by metis

lemma mip_block_depth_values:
  "mip_block_depth m 1 = 1"
  "mip_block_depth m 2 = (if m \<le> 1 then 1 else 2)"
  "mip_block_depth m 4 = (if m \<le> 1 then 1 else if m \<le> 2 then 2 else 4)"
  "mip_block_depth m 8 = (if m \<le> 1 then 1 else if m \<le> 2 then 2 else if m \<le> 4 then 4 else 8)"
  "mip_block_depth m 16 = (if m \<le> 1 then 1 else if m \<le> 2 then 2 else if m \<le> 4 then 4
      else if m \<le> 8 then 8 else 16)"
proof -
  show a: "mip_block_depth m 1 = 1" by (subst mip_block_depth.simps) simp
  have a': "mip_block_depth m (Suc 0) = Suc 0" using a by simp
  show b: "mip_block_depth m 2 = (if m \<le> 1 then 1 else 2)"
    by (subst mip_block_depth.simps) (simp add: a')
  show c: "mip_block_depth m 4 = (if m \<le> 1 then 1 else if m \<le> 2 then 2 else 4)"
    by (subst mip_block_depth.simps) (simp add: b)
  show d: "mip_block_depth m 8
      = (if m \<le> 1 then 1 else if m \<le> 2 then 2 else if m \<le> 4 then 4 else 8)"
    by (subst mip_block_depth.simps) (simp add: c)
  show "mip_block_depth m 16 = (if m \<le> 1 then 1 else if m \<le> 2 then 2 else if m \<le> 4 then 4
      else if m \<le> 8 then 8 else 16)"
    by (subst mip_block_depth.simps) (simp add: d)
qed

lemma mip_block_depth_Suc_0 [simp]: "mip_block_depth m (Suc 0) = Suc 0"
  by (subst mip_block_depth.simps) simp

lemma exact_round_up_small:
  assumes "0 < n" "0 < m" "m \<le> n"
  shows "exact_round_up m n = n"
proof -
  have "(m + n - 1) div n = 1"
  proof (rule div_mod_interval(1))
    show "1 * n \<le> m + n - 1" using assms by simp
    show "m + n - 1 < 1 * n + n" using assms by simp
  qed
  then show ?thesis by (simp add: exact_round_up_def)
qed

lemma exact_round_up_two:
  assumes "0 < n" "n < m" "m \<le> 2 * n"
  shows "exact_round_up m n = 2 * n"
proof -
  have "(m + n - 1) div n = 2"
  proof (rule div_mod_interval(1))
    show "2 * n \<le> m + n - 1" using assms by simp
    show "m + n - 1 < 2 * n + n" using assms by simp
  qed
  then show ?thesis by (simp add: exact_round_up_def)
qed

text \<open>
  The sizing functions round the depth of a mip level to its own block depth, the copy
  loops use the block depth halved down from the one of mip 0: both round to the same
  number of slices.
\<close>

lemma exact_round_up_mip_block_depth:
  assumes "1 \<le> m" "m \<le> d"
  shows "exact_round_up m (mip_block_depth m (exact_block_depth d)) = exact_round_up m (exact_block_depth m)"
proof -
  consider "11 \<le> m" | "m = 1" | "m = 2" | "3 \<le> m" "m \<le> 4" | "m = 5" | "6 \<le> m" "m \<le> 8"
    | "9 \<le> m" "m \<le> 10"
    using assms(1) by linarith
  then show ?thesis
  proof cases
    case 1
    then show ?thesis using assms(2) by (simp add: exact_block_depth_cases mip_block_depth_values)
  next
    case 2
    then show ?thesis by (simp add: exact_block_depth_cases mip_block_depth_values)
  next
    case 3
    then show ?thesis using assms(2) by (simp add: exact_block_depth_cases mip_block_depth_values)
  next
    case 4
    then show ?thesis using assms(2) by (simp add: exact_block_depth_cases mip_block_depth_values)
  next
    case 5
    then have "exact_round_up m 4 = 8" "exact_round_up m 8 = 8"
      by (simp_all add: exact_round_up_def)
    then show ?thesis
      using 5 assms(2) by (simp add: exact_block_depth_cases mip_block_depth_values)
  next
    case 6
    then show ?thesis using assms(2) by (simp add: exact_block_depth_cases mip_block_depth_values)
  next
    case 7
    then have "exact_round_up m 8 = 2 * 8" "exact_round_up m 16 = 16"
      by (simp_all add: exact_round_up_two exact_round_up_small)
    then show ?thesis
      using 7 assms(2) by (simp add: exact_block_depth_cases mip_block_depth_values)
  qed
qed

section \<open>Sizes of some small surfaces\<close>


lemma upt_0_1: "[0..<1] = [0]"
  by simp
lemma mip_block_height_100_16: "mip_block_height 100 BlockHeight_Sixteen = BlockHeight_Sixteen"
  by (simp add: mip_block_height_def BlockHeight_defs mip_block_height_loop.simps)
lemma mip_block_height_100_1: "mip_block_height 100 BlockHeight_One = BlockHeight_One"
  by (simp add: mip_block_height_def BlockHeight_defs mip_block_height_loop.simps)
lemma mip_dimension_level0: "mip_dimension 100 0 1 = Inr 100" "mip_dimension 1 0 1 = Inr 1" "mip_dimension 2 0 1 = Inr 2"
  by (simp_all add: mip_dimension_def div_round_up_def bind_def size_t_def)
lemma block_depth_1_2: "block_depth 2 = 2" "block_depth 1 = 1"
  by (simp_all add: block_depth_def size_t_def)
lemma swizzled_mip_size_1_100: "swizzled_mip_size 1 100 2 BlockHeight_Sixteen 1 = Inr 16384"
  "swizzled_mip_size 1 100 2 BlockHeight_One 1 = Inr 13312"
  "swizzled_mip_size 1 100 1 BlockHeight_Sixteen 1 = Inr 8192"
  "swizzled_mip_size 1 100 1 BlockHeight_One 1 = Inr 6656"
  by (simp_all add: swizzled_mip_size_def width_in_gobs_def height_in_blocks_def round_up_def div_round_up_def block_depth_1_2 bind_def size_t_def BlockHeight_defs GOB_SIZE_IN_BYTES_def GOB_WIDTH_IN_BYTES_def GOB_HEIGHT_IN_BYTES_def del: One_nat_def)
lemma block_height_mip0_100: "block_height_mip0 100 = BlockHeight_Sixteen"
  by (simp add: block_height_mip0_def size_t_def)
lemma swizzled_surface_size_1_100_1: "swizzled_surface_size 1 100 1 block_dim_uncompressed (Some BlockHeight_Sixteen) 1 1 1
       = Inr 8192"
  by (simp add: swizzled_surface_size_def surface_block_height_mip0_def block_dim_uncompressed_def upt_0_1 mip_block_height_100_16 mip_block_height_100_1 mip_dimension_level0 swizzled_mip_size_1_100 size_t_def div_round_up_def del: One_nat_def)
lemma swizzled_surface_size_1_100_1_inferred: "swizzled_surface_size 1 100 1 block_dim_uncompressed None 1 1 1
       = Inr 8192"
  by (simp add: swizzled_surface_size_def surface_block_height_mip0_def block_dim_uncompressed_def upt_0_1 mip_block_height_100_16 mip_block_height_100_1 mip_dimension_level0 swizzled_mip_size_1_100 block_height_mip0_100 size_t_def div_round_up_def del: One_nat_def)

lemma swizzled_surface_size_1_100_1_one:
  "swizzled_surface_size 1 100 1 block_dim_uncompressed (Some BlockHeight_One) 1 1 1
       = Inr 6656"
  by (simp add: swizzled_surface_size_def surface_block_height_mip0_def block_dim_uncompressed_def upt_0_1 mip_block_height_100_16 mip_block_height_100_1 mip_dimension_level0 swizzled_mip_size_1_100 size_t_def div_round_up_def del: One_nat_def)


section \<open>Properties of the specification\<close>

text \<open>
  C8, as the source has it.  For every height \<open>H\<close> in block rows whose sum
  \<open>H + H / 2\<close> fits in 64 bits, \<open>block_height_mip0 H\<close> is 16 when \<open>H + H / 2 \<ge> 128\<close>,
  else 8 when it is at least 64, else 4 when at least 32, else 2 when at least 16, else
  1; so \<open>block_height_mip0 300\<close> is 16 and \<open>block_height_mip0 8\<close> is 1.
\<close>

theorem block_height_mip0_table:
  "(H + H div 2 < 2 ^ 64 \<longrightarrow>
      static_cast (block_height_mip0 H) =
        (if H + H div 2 \<ge> 128 then 16 else if H + H div 2 \<ge> 64 then 8
         else if H + H div 2 \<ge> 32 then 4 else if H + H div 2 \<ge> 16 then 2 else 1))
   \<and> block_height_mip0 300 = BlockHeight_Sixteen
   \<and> block_height_mip0 8 = BlockHeight_One"
  by (simp add: block_height_mip0_def size_t_def BlockHeight_defs Let_def)

theorem block_height_mip0_table_witness:
  "(100::nat) + 100 div 2 < 2 ^ 64 \<and> static_cast (block_height_mip0 100) = 16
   \<and> (20::nat) + 20 div 2 < 2 ^ 64 \<and> static_cast (block_height_mip0 20) = 2
   \<and> block_height_mip0 300 = BlockHeight_Sixteen
   \<and> block_height_mip0 8 = BlockHeight_One"
  using block_height_mip0_table[of 100] block_height_mip0_table[of 20] by simp

text \<open>
  C8 as stated fails where \<open>H + H / 2\<close> no longer fits in 64 bits: for
  \<open>H = 0xAAAAAAAAAAAAAAAB\<close>, itself below \<open>2 ^ 64\<close>, the sum is \<open>2 ^ 64\<close>, far above
  128, but it is stored as 0 and the block height returned is 1.
\<close>

theorem block_height_mip0_wraps:
  "(0xAAAAAAAAAAAAAAAB::nat) < 2 ^ 64
   \<and> (0xAAAAAAAAAAAAAAAB::nat) + 0xAAAAAAAAAAAAAAAB div 2 \<ge> 128
   \<and> block_height_mip0 0xAAAAAAAAAAAAAAAB = BlockHeight_One
   \<and> block_height_mip0 0xAAAAAAAAAAAAAAAB \<noteq> BlockHeight_Sixteen"
  by (simp add: block_height_mip0_def size_t_def BlockHeight_defs Let_def)

text \<open>
  C9.  For every mip height and every valid block height of mip 0 (1, 2, 4, 8, 16 or
  32), \<open>mip_block_height\<close> returns at most the block height of mip 0, and returns 1
  whenever the mip height is at most 8.
\<close>

theorem mip_block_height_stable:
  assumes "valid_block_height bh_mip0"
  shows "static_cast (mip_block_height mip_height bh_mip0) \<le> static_cast bh_mip0
    \<and> (mip_height \<le> 8 \<longrightarrow> mip_block_height mip_height bh_mip0 = BlockHeight_One)"
proof -
  obtain k where k: "static_cast bh_mip0 = 2 ^ k"
    using assms by (rule valid_block_height_pow2)
  show ?thesis
    using mip_block_height_loop_le[of mip_height "static_cast bh_mip0"]
      mip_block_height_loop_small[of mip_height k]
    by (simp add: mip_block_height_def k BlockHeight_One_def)
qed

theorem mip_block_height_stable_witness:
  "valid_block_height BlockHeight_Sixteen
   \<and> static_cast (mip_block_height 4 BlockHeight_Sixteen) \<le> static_cast BlockHeight_Sixteen
   \<and> (4::nat) \<le> 8 \<and> mip_block_height 4 BlockHeight_Sixteen = BlockHeight_One"
proof -
  have v: "valid_block_height BlockHeight_Sixteen"
    by (simp add: valid_block_height_def)
  have "(4::nat) \<le> 8" by simp
  then show ?thesis using v mip_block_height_stable[OF v, of 4] by blast
qed

text \<open>
  C6.  For \<open>x < 64\<close> and \<open>y < 8\<close>, \<open>gob_offset x y\<close> is
  \<open>((x mod 64) / 32) * 256 + ((y mod 8) / 2) * 64 + ((x mod 32) / 16) * 32 + (y mod 2) * 16
  + (x mod 16)\<close>, which equals the bit form
  \<open>((x & 0x20) << 3) | ((y & 0x6) << 5) | ((x & 0x10) << 1) | ((y & 1) << 4) | (x & 0xF)\<close>.
  Row \<open>y\<close> of a GOB starts at \<open>GOB_ROW_OFFSETS[y]\<close>, one of 0, 16, 64, 80, 128, 144, 192,
  208; its bytes 0 to 15 are contiguous from there, bytes 16 to 31 start at the row
  offset + 32, bytes 32 to 47 at the row offset + 256 and bytes 48 to 63 at the row
  offset + 288.
\<close>

theorem gob_offset_forms:
  assumes "x < 64" and "y < 8"
  shows "gob_offset x y = ((x mod 64) div 32) * 256 + ((y mod 8) div 2) * 64
           + ((x mod 32) div 16) * 32 + (y mod 2) * 16 + (x mod 16)
    \<and> gob_offset x y = (push_bit 3 (x AND 0x20)) OR (push_bit 5 (y AND 0x6))
           OR (push_bit 1 (x AND 0x10)) OR (push_bit 4 (y AND 1)) OR (x AND 0xF)
    \<and> GOB_ROW_OFFSETS ! y = [0, 16, 64, 80, 128, 144, 192, 208] ! y
    \<and> gob_offset x y = GOB_ROW_OFFSETS ! y +
          (if x < 16 then x else if x < 32 then 32 + (x - 16)
           else if x < 48 then 256 + (x - 32) else 288 + (x - 48))"
proof -
  have "gob_offset x y = GOB_ROW_OFFSETS ! y +
          (if x < 16 then x else if x < 32 then 32 + (x - 16)
           else if x < 48 then 256 + (x - 32) else 288 + (x - 48))"
    using gob_offset_row[OF assms] by auto
  moreover have "gob_offset x y = (push_bit 3 (x AND 0x20)) OR (push_bit 5 (y AND 0x6))
           OR (push_bit 1 (x AND 0x10)) OR (push_bit 4 (y AND 1)) OR (x AND 0xF)"
    by (rule gob_offset_bits)
  ultimately show ?thesis
    by (simp add: gob_offset_def GOB_ROW_OFFSETS_def)
qed

theorem gob_offset_forms_witness:
  "(37::nat) < 64 \<and> (5::nat) < 8 \<and> gob_offset 37 5 = 405
   \<and> (push_bit 3 (37 AND 0x20)) OR (push_bit 5 (5 AND 0x6))
           OR (push_bit 1 (37 AND 0x10)) OR (push_bit 4 (5 AND 1)) OR (37 AND 0xF) = (405::nat)
   \<and> GOB_ROW_OFFSETS ! 5 = 144 \<and> gob_offset 37 5 = GOB_ROW_OFFSETS ! 5 + 256 + (37 - 32)"
proof -
  have h: "(37::nat) < 64" "(5::nat) < 8" by simp_all
  have g: "gob_offset 37 5 = 405" by (simp add: gob_offset_def)
  show ?thesis using gob_offset_forms[OF h] g by (simp add: GOB_ROW_OFFSETS_def)
qed





end
